theory Spec2Isabelle
  imports Complex_Main "HOL-Library.Word"
begin

unbundle bit_operations_syntax

section \<open>Python floats\<close>

text \<open>
  \<^verbatim>\<open>server_image.py\<close> computes the resize height and the brightness curve with Python
  floats, which are IEEE-754 binary64 values.  A finite binary64 value is a 53-bit
  signed mantissa times a power of two; \<open>Double m e\<close> stands for \<open>m * 2 ^ e\<close>.  Every
  operation computes the exact result on unbounded integers and then rounds it to 53
  significant bits, ties to even, which is what the hardware does for results in the
  normal range.  The exponent of a \<open>double\<close> is unbounded: where the module can reach
  \<open>2 ^ 1024\<close> (in \<^verbatim>\<open>resize_image\<close>), the model tests the result with \<open>finite64\<close> below.
  Gradual underflow, NaN and the sign of zero are not modelled; none of them occurs
  for the operands this module computes with (image dimensions below \<open>2 ^ 31\<close>, luma
  and brightness values in 0..255).
\<close>

datatype double = Double (mant: int) (expo: int)

fun bitlen :: "nat \<Rightarrow> nat" where
  "bitlen n = (if n = 0 then 0 else Suc (bitlen (n div 2)))"

declare bitlen.simps [simp del]

text \<open>Round \<open>m * 2 ^ e\<close> to 53 significant bits, ties to even.\<close>

definition round53 :: "int \<Rightarrow> int \<Rightarrow> double" where
  "round53 m e =
     (let a = \<bar>m\<bar>; n = bitlen (nat a) in
      if n \<le> 53 then Double m e
      else
        let s = n - 53;
            q = a div 2 ^ s;
            r = a mod 2 ^ s;
            h = 2 ^ (s - 1);
            q' = (if h < r \<or> (r = h \<and> odd q) then q + 1 else q)
        in Double (sgn m * q') (e + int s))"

text \<open>The real number a double stands for.\<close>

definition dval :: "double \<Rightarrow> real" where
  "dval d = real_of_int (mant d) * 2 powi expo d"

text \<open>\<^verbatim>\<open>float(n)\<close>, and the implicit conversion of an int operand in mixed arithmetic.\<close>

definition float_of_int :: "int \<Rightarrow> double" where
  "float_of_int n = round53 n 0"

text \<open>
  A rounded result of magnitude \<open>2 ^ 1024\<close> or more is not a finite binary64 value.
  The conversion of such an int raises OverflowError; the product of two floats
  becomes infinity, which \<^verbatim>\<open>int\<close> refuses with OverflowError.
\<close>

definition finite64 :: "double \<Rightarrow> bool" where
  "finite64 d \<longleftrightarrow> mant d = 0 \<or> int (bitlen (nat \<bar>mant d\<bar>)) + expo d \<le> 1024"

fun fmul :: "double \<Rightarrow> double \<Rightarrow> double" where
  "fmul (Double m1 e1) (Double m2 e2) = round53 (m1 * m2) (e1 + e2)"

fun fadd :: "double \<Rightarrow> double \<Rightarrow> double" where
  "fadd (Double m1 e1) (Double m2 e2) =
     (let e = min e1 e2
      in round53 (m1 * 2 ^ nat (e1 - e) + m2 * 2 ^ nat (e2 - e)) e)"

fun fsub :: "double \<Rightarrow> double \<Rightarrow> double" where
  "fsub (Double m1 e1) (Double m2 e2) =
     (let e = min e1 e2
      in round53 (m1 * 2 ^ nat (e1 - e) - m2 * 2 ^ nat (e2 - e)) e)"

text \<open>
  Division, for a divisor other than zero (the callers check): the numerator is
  scaled so that the integer quotient has more than 55 bits, and a sticky bit records
  a remainder, so that rounding the pair to 53 bits rounds the exact quotient.
\<close>

fun fdiv :: "double \<Rightarrow> double \<Rightarrow> double" where
  "fdiv (Double m1 e1) (Double m2 e2) =
     (let k = 55 + bitlen (nat \<bar>m2\<bar>);
          n = \<bar>m1\<bar> * 2 ^ k;
          q = n div \<bar>m2\<bar>;
          sticky = (if n mod \<bar>m2\<bar> = 0 then 0 else 1)
      in round53 (sgn m1 * sgn m2 * (2 * q + sticky)) (e1 - e2 - int k - 1))"

text \<open>Python's \<^verbatim>\<open><\<close> on floats.\<close>

fun fless :: "double \<Rightarrow> double \<Rightarrow> bool" where
  "fless (Double m1 e1) (Double m2 e2) =
     (let e = min e1 e2 in m1 * 2 ^ nat (e1 - e) < m2 * 2 ^ nat (e2 - e))"

text \<open>\<^verbatim>\<open>min(a, b)\<close> is \<open>b\<close> if \<open>b < a\<close>, else \<open>a\<close>; \<^verbatim>\<open>max(a, b)\<close> is \<open>b\<close> if \<open>a < b\<close>, else \<open>a\<close>.\<close>

definition py_min :: "double \<Rightarrow> double \<Rightarrow> double" where
  "py_min a b = (if fless b a then b else a)"

definition py_max :: "double \<Rightarrow> double \<Rightarrow> double" where
  "py_max a b = (if fless a b then b else a)"

text \<open>\<^verbatim>\<open>int(x)\<close> on a float truncates towards zero.\<close>

fun py_int :: "double \<Rightarrow> int" where
  "py_int (Double m e) =
     (if 0 \<le> e then m * 2 ^ nat e
      else if 0 \<le> m then m div 2 ^ nat (- e)
      else - ((- m) div 2 ^ nat (- e)))"


section \<open>Errors, images and the libraries behind the module\<close>

text \<open>
  The module raises \<^verbatim>\<open>ValueError\<close> itself; the other exceptions come out of the
  interpreter and the libraries and are not caught anywhere in the module.
\<close>

datatype error =
    ValueError string
  | OverflowError
  | ZeroDivisionError
  | MemoryError
  | UnidentifiedImageError

type_synonym byte = "8 word"

text \<open>
  A Pillow image: mode string, size \<open>(width, height)\<close> and the rows of pixels, top to
  bottom.  An image of mode \<^verbatim>\<open>'L'\<close> or \<^verbatim>\<open>'1'\<close> has one byte per pixel (\<open>byte image\<close>); in
  mode \<^verbatim>\<open>'1'\<close> the byte is 0 for black and 255 for white.
\<close>

record 'p image =
  mode :: string
  imsize :: "nat \<times> nat"
  pixels :: "'p list list"

definition wf_image :: "'p image \<Rightarrow> bool" where
  "wf_image img \<longleftrightarrow>
     length (pixels img) = snd (imsize img) \<and>
     list_all (\<lambda>row. length row = fst (imsize img)) (pixels img)"

type_synonym rgba = "byte \<times> byte \<times> byte \<times> byte"

text \<open>What \<^verbatim>\<open>requests.get\<close> hands back, as far as \<^verbatim>\<open>download_image\<close> looks at it.\<close>

record response =
  status_error :: "string option" \<comment> \<open>\<^verbatim>\<open>raise_for_status()\<close>: the HTTPError message, if any\<close>
  content_type :: "string option" \<comment> \<open>the Content-Type header\<close>
  content_length :: "string option" \<comment> \<open>the Content-Length header\<close>
  body :: "string + byte list" \<comment> \<open>\<^verbatim>\<open>response.content\<close>; \<open>Inl\<close> a RequestException while reading\<close>

text \<open>
  The parts of \<^verbatim>\<open>requests\<close>, Pillow and the interpreter whose results the module only
  passes on.  They are parameters of the model: the text of the exception with which
  \<^verbatim>\<open>requests\<close> refuses a URL, the transport and the remote server, the decoder, the
  resampling (which may fail: Pillow raises MemoryError when its size checks or the
  allocator refuse the new image), the per-pixel colour conversions and Pillow's
  error-diffusion conversion to mode \<^verbatim>\<open>'1'\<close>.
\<close>

record 'p library =
  request_refused :: "string \<Rightarrow> string"
    \<comment> \<open>the message of the RequestException for a URL that no adapter takes\<close>
  http_send :: "string \<Rightarrow> int \<Rightarrow> bool \<times> (string + response)"
    \<comment> \<open>url, timeout; whether a request went out, and the response or (\<open>Inl\<close>) the
        message of a RequestException\<close>
  int_of_str :: "string \<Rightarrow> string + int"
    \<comment> \<open>\<^verbatim>\<open>int(s)\<close>; \<open>Inl\<close> the message of its ValueError\<close>
  image_open :: "byte list \<Rightarrow> error + 'p image"
  resample :: "'p image \<Rightarrow> nat \<times> nat \<Rightarrow> error + 'p list list"
  to_rgba :: "string \<Rightarrow> 'p \<Rightarrow> rgba"
  composite :: "rgba \<Rightarrow> rgba \<Rightarrow> rgba"
  luma :: "rgba \<Rightarrow> byte"
  tobilevel :: "byte list list \<Rightarrow> byte list list"

text \<open>The requests that went out to the network so far, oldest first: url and timeout.\<close>

type_synonym net_log = "(string \<times> int) list"

section \<open>download\_image\<close>

fun startswith :: "string \<Rightarrow> string \<Rightarrow> bool" where
  "startswith s [] = True"
| "startswith [] (c # cs) = False"
| "startswith (d # ds) (c # cs) = (d = c \<and> startswith ds cs)"

definition size_limit :: int where
  "size_limit = 10 * 1024 * 1024"

definition download_failed :: "string \<Rightarrow> error" where
  "download_failed e = ValueError (''Download failed: '' @ e)"

text \<open>
  The body of the \<^verbatim>\<open>with\<close> block: the checks on the response, in the order of the
  source.  A RequestException (from \<^verbatim>\<open>raise_for_status\<close> or while the body is read) is
  caught and raised again as \<^verbatim>\<open>ValueError("Download failed: ...")\<close>.
\<close>

definition read_response :: "'p library \<Rightarrow> response \<Rightarrow> error + 'p image" where
  "read_response P response =
     (case status_error response of
        Some e \<Rightarrow> Inl (download_failed e)
      | None \<Rightarrow>
          (let ctype = (case content_type response of None \<Rightarrow> [] | Some t \<Rightarrow> t) in
           if \<not> startswith ctype ''image/'' then
             Inl (ValueError (''Invalid Content-Type: '' @ ctype))
           else
             (case (case content_length response of
                      None \<Rightarrow> Inr False
                    | Some cl \<Rightarrow>
                        if cl = [] then Inr False
                        else (case int_of_str P cl of
                                Inl m \<Rightarrow> Inl (ValueError m)
                              | Inr n \<Rightarrow> Inr (size_limit < n))) of
                Inl e \<Rightarrow> Inl e
              | Inr True \<Rightarrow> Inl (ValueError ''Image too large (>10MB)'')
              | Inr False \<Rightarrow>
                  (case body response of
                     Inl e \<Rightarrow> Inl (download_failed e)
                   | Inr image_data \<Rightarrow>
                       if size_limit < int (length image_data) then
                         Inl (ValueError ''Image too large (>10MB)'')
                       else image_open P image_data))))"

text \<open>
  \<^verbatim>\<open>requests.get\<close>.  A request goes out only through the transport adapter that the
  session finds for the URL, and a session has two, mounted on \<^verbatim>\<open>http://\<close> and
  \<^verbatim>\<open>https://\<close> and looked up by \<^verbatim>\<open>url.lower().startswith(prefix)\<close>.  For every other URL
  (an unknown scheme, no scheme, no host) \<^verbatim>\<open>requests\<close> raises a RequestException
  (InvalidSchema, MissingSchema, InvalidURL) before any input or output.  \<open>lower\<close> is
  \<^verbatim>\<open>str.lower\<close> on ASCII; no other character lowers to one of \<^verbatim>\<open>https://\<close>.
\<close>

definition lower_char :: "char \<Rightarrow> char" where
  "lower_char c =
     (let n = (of_char c :: nat) in if 65 \<le> n \<and> n \<le> 90 then char_of (n + 32) else c)"

definition lower :: "string \<Rightarrow> string" where
  "lower s = map lower_char s"

definition has_adapter :: "string \<Rightarrow> bool" where
  "has_adapter url \<longleftrightarrow>
     startswith (lower url) ''http://'' \<or> startswith (lower url) ''https://''"

definition requests_get ::
  "'p library \<Rightarrow> string \<Rightarrow> int \<Rightarrow> net_log \<Rightarrow> (string + response) \<times> net_log" where
  "requests_get P url timeout reqs =
     (if has_adapter url then
        (case http_send P url timeout of
           (sent, r) \<Rightarrow> (r, if sent then reqs @ [(url, timeout)] else reqs))
      else (Inl (request_refused P url), reqs))"

definition download_image ::
  "'p library \<Rightarrow> string \<Rightarrow> int \<Rightarrow> net_log \<Rightarrow> (error + 'p image) \<times> net_log" where
  "download_image P url timeout reqs =
     (if \<not> startswith url ''http'' then
        (Inl (ValueError ''URL must start with http/https''), reqs)
      else
        (case requests_get P url timeout reqs of
           (Inl e, reqs') \<Rightarrow> (Inl (download_failed e), reqs')
         | (Inr response, reqs') \<Rightarrow> (read_response P response, reqs')))"

section \<open>resize\_image\<close>

definition c_int :: "int \<Rightarrow> bool" where
  "c_int n \<longleftrightarrow> - (2 ^ 31) \<le> n \<and> n < 2 ^ 31"

text \<open>
  Pillow's \<^verbatim>\<open>Image.resize(size, resample)\<close>: a copy when the size does not change;
  otherwise the two numbers are parsed as C ints (OverflowError beyond 32 bits), a size
  below 1 is refused with \<^verbatim>\<open>ValueError: height and width must be > 0\<close>, and the
  resampling either fails or gives an image in the mode of the source and of exactly
  the size asked for.
\<close>

definition Image_resize :: "'p library \<Rightarrow> 'p image \<Rightarrow> int \<times> int \<Rightarrow> error + 'p image" where
  "Image_resize P img sz =
     (case sz of (xsize, ysize) \<Rightarrow>
        if (int (fst (imsize img)), int (snd (imsize img))) = (xsize, ysize) then Inr img
        else if \<not> c_int xsize \<or> \<not> c_int ysize then Inl OverflowError
        else if xsize < 1 \<or> ysize < 1 then
          Inl (ValueError ''height and width must be > 0'')
        else
          (case resample P img (nat xsize, nat ysize) of
             Inl e \<Rightarrow> Inl e
           | Inr rows \<Rightarrow>
               Inr \<lparr>mode = mode img, imsize = (nat xsize, nat ysize), pixels = rows\<rparr>))"

text \<open>
  The first two statements of \<^verbatim>\<open>resize_image\<close>, in the order in which Python evaluates
  them: \<^verbatim>\<open>float(img.size[0])\<close>; the division, which converts its int operand
  (OverflowError) before it looks at the divisor (ZeroDivisionError);
  \<^verbatim>\<open>float(img.size[1])\<close>; the product; \<^verbatim>\<open>int\<close> of the product.
\<close>

definition py_float :: "int \<Rightarrow> error + double" where
  "py_float n = (if finite64 (float_of_int n) then Inr (float_of_int n) else Inl OverflowError)"

definition target_height_of :: "nat \<times> nat \<Rightarrow> int \<Rightarrow> error + int" where
  "target_height_of sz target_width =
     (case py_float (int (fst sz)) of
        Inl e \<Rightarrow> Inl e
      | Inr w \<Rightarrow>
          (case py_float target_width of
             Inl e \<Rightarrow> Inl e
           | Inr t \<Rightarrow>
               if mant w = 0 then Inl ZeroDivisionError
               else
                 (let width_percent = fdiv t w in
                  case py_float (int (snd sz)) of
                    Inl e \<Rightarrow> Inl e
                  | Inr h \<Rightarrow>
                      if finite64 (fmul h width_percent)
                      then Inr (py_int (fmul h width_percent))
                      else Inl OverflowError)))"

definition resize_image :: "'p library \<Rightarrow> 'p image \<Rightarrow> int \<Rightarrow> error + 'p image" where
  "resize_image P img target_width =
     (case target_height_of (imsize img) target_width of
        Inl e \<Rightarrow> Inl e
      | Inr target_height \<Rightarrow> Image_resize P img (target_width, target_height))"


section \<open>to\_grayscale\<close>

text \<open>
  The local function \<^verbatim>\<open>adjust\<close> and its variable \<^verbatim>\<open>factor\<close>.  \<^verbatim>\<open>x\<close> is an int out of
  \<^verbatim>\<open>range(256)\<close>; \<^verbatim>\<open>m / 255.0\<close> and every later operation is float arithmetic, the int
  operand converted first.  \<^verbatim>\<open>min\<close> and \<^verbatim>\<open>max\<close> compare the numbers; the ints 255 and 0
  they may return have the same value as a float.
\<close>

definition factor :: "int \<Rightarrow> int \<Rightarrow> double" where
  "factor brightness m =
     fmul
       (fmul
          (fmul (float_of_int (brightness - 128))
                (fsub (float_of_int 1) (fdiv (float_of_int m) (Double 255 0))))
          (fdiv (float_of_int m) (Double 255 0)))
       (float_of_int 2)"

definition adjust :: "int \<Rightarrow> int \<Rightarrow> int" where
  "adjust brightness x =
     (let m = x
      in py_int (py_max (float_of_int 0)
                   (py_min (float_of_int 255) (fadd (float_of_int m) (factor brightness m)))))"

text \<open>
  Pillow's \<^verbatim>\<open>Image.point(f)\<close> on an 8-bit image: the table \<^verbatim>\<open>[f(i) for i in range(256)]\<close>
  is stored as bytes, each entry clipped to 0..255, and every pixel is looked up in it.
\<close>

definition clip8 :: "int \<Rightarrow> int" where
  "clip8 v = (if v < 0 then 0 else if 255 < v then 255 else v)"

definition point :: "(int \<Rightarrow> int) \<Rightarrow> byte image \<Rightarrow> byte image" where
  "point lut img =
     img\<lparr>pixels := map (map (\<lambda>p. (word_of_int (clip8 (lut (uint p))) :: byte))) (pixels img)\<rparr>"

text \<open>\<^verbatim>\<open>Image.new(mode, size, color)\<close>, \<^verbatim>\<open>convert("RGBA")\<close>, \<^verbatim>\<open>alpha_composite\<close>, \<^verbatim>\<open>convert("L")\<close>:
  the mode and the size are Pillow's, the value of each pixel is the library's.\<close>

definition Image_new :: "string \<Rightarrow> nat \<times> nat \<Rightarrow> 'q \<Rightarrow> 'q image" where
  "Image_new md sz color =
     \<lparr>mode = md, imsize = sz, pixels = replicate (snd sz) (replicate (fst sz) color)\<rparr>"

definition convert_RGBA :: "'p library \<Rightarrow> 'p image \<Rightarrow> rgba image" where
  "convert_RGBA P img =
     \<lparr>mode = ''RGBA'', imsize = imsize img,
      pixels = map (map (to_rgba P (mode img))) (pixels img)\<rparr>"

definition alpha_composite :: "'p library \<Rightarrow> rgba image \<Rightarrow> rgba image \<Rightarrow> rgba image" where
  "alpha_composite P dst src =
     \<lparr>mode = ''RGBA'', imsize = imsize dst,
      pixels = map2 (map2 (composite P)) (pixels dst) (pixels src)\<rparr>"

definition convert_L :: "'p library \<Rightarrow> rgba image \<Rightarrow> byte image" where
  "convert_L P img =
     \<lparr>mode = ''L'', imsize = imsize img, pixels = map (map (luma P)) (pixels img)\<rparr>"

text \<open>
  The first three statements of \<^verbatim>\<open>to_grayscale\<close>: to RGBA, over a white background when
  asked, to mode \<^verbatim>\<open>'L'\<close>.
\<close>

definition flatten_to_L :: "'p library \<Rightarrow> 'p image \<Rightarrow> bool \<Rightarrow> byte image" where
  "flatten_to_L P img0 alpha_as_white =
     (let img1 = convert_RGBA P img0;
          img2 = (if alpha_as_white then
                    alpha_composite P
                      (Image_new ''RGBA'' (imsize img1) (255, 255, 255, 255)) img1
                  else img1)
      in convert_L P img2)"

definition to_grayscale :: "'p library \<Rightarrow> 'p image \<Rightarrow> int \<Rightarrow> bool \<Rightarrow> byte image" where
  "to_grayscale P img0 brightness alpha_as_white =
     (let img = flatten_to_L P img0 alpha_as_white
      in if brightness \<noteq> 128 then point (adjust brightness) img else img)"

text \<open>The defaults of the signatures.\<close>

definition timeout_default :: int where
  "timeout_default = 10"

definition target_width_default :: int where
  "target_width_default = 384"

definition brightness_default :: int where
  "brightness_default = 127"

definition alpha_as_white_default :: bool where
  "alpha_as_white_default = True"

definition algorithm_default :: string where
  "algorithm_default = ''algo-steinberg''"

section \<open>Dithering\<close>

datatype dither = NONE | FLOYDSTEINBERG

text \<open>
  Pillow's \<^verbatim>\<open>convert('1', dither=...)\<close> on a one-byte-per-pixel image.  A mode \<^verbatim>\<open>'1'\<close> image
  is copied.  Without dithering each byte of an \<^verbatim>\<open>'L'\<close> image becomes 255 when it is at
  least 128 and 0 otherwise; with dithering the pixels are the library's error
  diffusion of the whole raster.
\<close>

definition l2bit :: "byte \<Rightarrow> byte" where
  "l2bit p = (if 128 \<le> p then 255 else 0)"

definition convert_1 :: "'p library \<Rightarrow> dither \<Rightarrow> byte image \<Rightarrow> byte image" where
  "convert_1 P d img =
     (if mode img = ''1'' then img
      else
        \<lparr>mode = ''1'', imsize = imsize img,
         pixels = (case d of
                     NONE \<Rightarrow> map (map l2bit) (pixels img)
                   | FLOYDSTEINBERG \<Rightarrow> tobilevel P (pixels img))\<rparr>)"

definition dither_direct :: "'p library \<Rightarrow> byte image \<Rightarrow> byte image" where
  "dither_direct P img = convert_1 P NONE img"

definition dither_floyd_steinberg :: "'p library \<Rightarrow> byte image \<Rightarrow> byte image" where
  "dither_floyd_steinberg P img = convert_1 P FLOYDSTEINBERG img"

definition dither_halftone :: "'p library \<Rightarrow> byte image \<Rightarrow> byte image" where
  "dither_halftone P img = convert_1 P FLOYDSTEINBERG img"

section \<open>pack\_to\_pbm\<close>

text \<open>
  \<^verbatim>\<open>tobytes("raw", "1;I")\<close>: Pillow packs every row on its own with the loop below (its
  C variables \<^verbatim>\<open>m\<close>, the mask, and \<^verbatim>\<open>b\<close>, the byte being filled): a zero pixel sets
  the bit, the mask moves right, a full byte is emitted, and so is a partly filled last
  one.  An image without pixels gives no bytes.
\<close>

fun pack1I_loop :: "byte list \<Rightarrow> int \<Rightarrow> int \<Rightarrow> byte list" where
  "pack1I_loop [] m b = (if m \<noteq> 128 then [word_of_int b] else [])"
| "pack1I_loop (p # ps) m b =
     (let b' = (if p = 0 then b OR m else b);
          m' = drop_bit 1 m
      in if m' = 0 then word_of_int b' # pack1I_loop ps 128 0
         else pack1I_loop ps m' b')"

definition pack1I :: "byte list \<Rightarrow> byte list" where
  "pack1I row = pack1I_loop row 128 0"

definition tobytes_raw_1I :: "byte image \<Rightarrow> byte list" where
  "tobytes_raw_1I img =
     (if fst (imsize img) = 0 \<or> snd (imsize img) = 0 then []
      else concat (map pack1I (pixels img)))"

text \<open>\<^verbatim>\<open>b'%d' % n\<close> for a size: the decimal digits, no sign, no padding.\<close>

fun str_d :: "nat \<Rightarrow> string" where
  "str_d n =
     (if n < 10 then [''0123456789'' ! n]
      else str_d (n div 10) @ [''0123456789'' ! (n mod 10)])"

declare str_d.simps [simp del]

definition ascii :: "string \<Rightarrow> byte list" where
  "ascii s = map of_char s"

definition pbm_header :: "nat \<Rightarrow> nat \<Rightarrow> byte list" where
  "pbm_header width height =
     ascii (''P4'' @ [CHR 0x0A] @ str_d width @ '' '' @ str_d height @ [CHR 0x0A])"

definition pack_to_pbm :: "'p library \<Rightarrow> byte image \<Rightarrow> byte list" where
  "pack_to_pbm P img0 =
     (let img = (if mode img0 \<noteq> ''1'' then convert_1 P FLOYDSTEINBERG img0 else img0);
          width = fst (imsize img);
          height = snd (imsize img);
          data = tobytes_raw_1I img
      in pbm_header width height @ data)"

section \<open>process\_image\<close>

definition process_image ::
  "'p library \<Rightarrow> string \<Rightarrow> string \<Rightarrow> net_log \<Rightarrow> (error + byte list) \<times> net_log" where
  "process_image P url algorithm reqs =
     (case download_image P url timeout_default reqs of
        (Inl e, reqs') \<Rightarrow> (Inl e, reqs')
      | (Inr img, reqs') \<Rightarrow>
          (case resize_image P img target_width_default of
             Inl e \<Rightarrow> (Inl e, reqs')
           | Inr img \<Rightarrow>
               (let img = to_grayscale P img brightness_default alpha_as_white_default;
                    img = (if algorithm = ''algo-direct'' then dither_direct P img
                           else dither_floyd_steinberg P img)
                in (Inr (pack_to_pbm P img), reqs'))))"


text \<open>The pipeline with error diffusion and the defaults of \<open>process_image\<close>, spelled out.\<close>

definition steinberg_pipeline ::
  "'p library \<Rightarrow> string \<Rightarrow> net_log \<Rightarrow> (error + byte list) \<times> net_log" where
  "steinberg_pipeline P url reqs =
     (case download_image P url timeout_default reqs of
        (Inl e, reqs') \<Rightarrow> (Inl e, reqs')
      | (Inr img, reqs') \<Rightarrow>
          (case resize_image P img target_width_default of
             Inl e \<Rightarrow> (Inl e, reqs')
           | Inr img \<Rightarrow>
               (Inr (pack_to_pbm P
                  (dither_floyd_steinberg P
                     (to_grayscale P img brightness_default alpha_as_white_default))),
                reqs')))"

section \<open>A library instance for the examples\<close>

text \<open>
  The closed examples below run the module on gray sources (one byte per pixel, no
  transparency), for which Pillow's conversions are plain: a gray value \<open>p\<close> becomes the
  opaque RGBA pixel \<open>(p, p, p, 255)\<close>, an opaque pixel composited over any background
  is the pixel itself, and the luma of \<open>(p, p, p)\<close> is \<open>p\<close>.  The network of the
  examples answers no request and nothing decodes.  The texts of the libraries'
  messages (left empty), the resampling filter (which here refuses more than \<open>2 ^ 24\<close>
  pixels) and the error diffusion are stand-ins: no example looks at a message or at a
  pixel they produce.
\<close>

definition example_library :: "byte library" where
  "example_library =
     \<lparr>request_refused = (\<lambda>url. []),
      http_send = (\<lambda>url timeout. (True, Inl [])),
      int_of_str = (\<lambda>s. Inl []),
      image_open = (\<lambda>data. Inl UnidentifiedImageError),
      resample = (\<lambda>img sz.
        if fst sz * snd sz \<le> 2 ^ 24 then Inr (replicate (snd sz) (replicate (fst sz) 0))
        else Inl MemoryError),
      to_rgba = (\<lambda>md p. (p, p, p, 255)),
      composite = (\<lambda>dst src. src),
      luma = (\<lambda>c. fst c),
      tobilevel = map (map l2bit)\<rparr>"

text \<open>The same library with a server behind it: every request is answered with a
  small PNG that decodes to a 2 by 2 gray image.\<close>

definition example_server :: "byte library" where
  "example_server =
     example_library
       \<lparr>http_send := (\<lambda>url timeout.
          (True, Inr \<lparr>status_error = None, content_type = Some ''image/png'',
                      content_length = Some ''4'', body = Inr [1, 2, 3, 4]\<rparr>)),
        int_of_str := (\<lambda>s. Inr 4),
        image_open := (\<lambda>data. Inr (Image_new ''L'' (2, 2) 128))\<rparr>"

text \<open>The reading side of section 4.5 of the specification, to state what a pixel
  packs to: pixel \<open>(x, y)\<close> of a raster of width \<open>w\<close> is bit \<open>7 - x mod 8\<close> of byte
  \<open>y * ceil(w/8) + x div 8\<close> of the raster data.\<close>

definition raster_bit :: "byte list \<Rightarrow> nat \<Rightarrow> nat \<Rightarrow> nat \<Rightarrow> bool" where
  "raster_bit data w x y = bit (data ! (y * ((w + 7) div 8) + x div 8)) (7 - x mod 8)"

text \<open>The scheme of a URL, as the specification uses the word: what stands before
  the first colon.  A URL without a colon has no scheme, and schemes are compared
  without regard to case: \<open>has_scheme url ''http''\<close> holds for \<^verbatim>\<open>http://a\<close> and for
  \<^verbatim>\<open>HTTP://a\<close>, not for \<^verbatim>\<open>httpx://a\<close> or \<^verbatim>\<open>http\<close>.\<close>

definition url_scheme :: "string \<Rightarrow> string" where
  "url_scheme url = takeWhile (\<lambda>c. c \<noteq> CHR '':'') url"

definition has_scheme :: "string \<Rightarrow> string \<Rightarrow> bool" where
  "has_scheme url s \<longleftrightarrow> CHR '':'' \<in> set url \<and> lower (url_scheme url) = s"


section \<open>The packing loop\<close>

lemma mask_eq_128: "j \<le> 7 \<Longrightarrow> ((2::int) ^ j = 128) = (j = 7)"
proof -
  have "((2::int) ^ j = 2 ^ 7) = (j = 7)" by (rule power_inject_exp) simp
  then show ?thesis by simp
qed

lemma drop_bit_mask: "drop_bit (Suc 0) ((2::int) ^ j) = (if j = 0 then 0 else 2 ^ (j - 1))"
  by (cases j) (simp_all add: drop_bit_eq_div)

lemma length_pack1I_loop:
  "j \<le> 7 \<Longrightarrow> length (pack1I_loop ps (2 ^ j) b) = (length ps + (7 - j) + 7) div 8"
proof (induction ps arbitrary: j b)
  case Nil
  then show ?case by (auto simp: mask_eq_128)
next
  case (Cons p ps)
  show ?case
  proof (cases "j = 0")
    case True
    have "length (pack1I_loop ps (2 ^ 7) 0) = (length ps + (7 - 7) + 7) div 8"
      by (rule Cons.IH) simp
    then show ?thesis using True by (simp add: Let_def)
  next
    case False
    with Cons.prems have j: "j - 1 \<le> 7" by simp
    have "(2::int) ^ (j - 1) \<noteq> 0" by simp
    moreover have "7 - (j - 1) = Suc (7 - j)" using False Cons.prems by simp
    ultimately show ?thesis using False Cons.IH [OF j]
      by (simp add: Let_def drop_bit_mask)
  qed
qed

lemma length_pack1I: "length (pack1I row) = (length row + 7) div 8"
  using length_pack1I_loop [of 7 row 0] by (simp add: pack1I_def)

lemma ceil_div8: "nat \<lceil>real w / 8\<rceil> = (w + 7) div 8"
proof -
  have "\<lceil>real w / 8\<rceil> = - \<lfloor>real_of_int (- int w) / real_of_int 8\<rfloor>"
    by (simp add: ceiling_def)
  also have "\<dots> = - ((- int w) div 8)"
    by (simp only: floor_divide_of_int_eq)
  finally show ?thesis by linarith
qed

lemma bit_mask_int: "bit ((2::int) ^ j) n = (n = j)"
  by (auto simp: bit_exp_iff)

text \<open>bits above the mask survive into the first byte emitted\<close>
lemma pack1I_loop_keeps:
  "j \<le> 7 \<Longrightarrow> ps \<noteq> [] \<or> j < 7 \<Longrightarrow> j < n \<Longrightarrow> n < 8 \<Longrightarrow>
   bit (pack1I_loop ps (2 ^ j) b ! 0) n = bit b n"
proof (induction ps arbitrary: j b)
  case Nil
  then show ?case by (simp add: mask_eq_128 bit_word_of_int_iff)
next
  case (Cons p ps)
  show ?case
  proof (cases "j = 0")
    case True
    then show ?thesis using Cons.prems
      by (simp add: Let_def bit_word_of_int_iff bit_or_iff bit_1_iff)
  next
    case False
    with Cons.prems have j: "j - 1 \<le> 7" "ps \<noteq> [] \<or> j - 1 < 7" "j - 1 < n" by auto
    have nz: "(2::int) ^ (j - 1) \<noteq> 0" by simp
    have "bit (pack1I_loop ps (2 ^ (j - 1)) b' ! 0) n = bit b' n" for b'
      by (rule Cons.IH [OF j Cons.prems(4)])
    then show ?thesis using False Cons.prems nz
      by (simp add: Let_def drop_bit_mask bit_or_iff bit_mask_int)
  qed
qed

lemma pack1I_loop_bit:
  "j \<le> 7 \<Longrightarrow> i < length ps \<Longrightarrow> \<forall>n\<le>j. \<not> bit b n \<Longrightarrow>
   bit (pack1I_loop ps (2 ^ j) b ! ((7 - j + i) div 8)) (7 - (7 - j + i) mod 8) = (ps ! i = 0)"
proof (induction ps arbitrary: j b i)
  case Nil
  then show ?case by simp
next
  case (Cons p ps)
  let ?b' = "if p = 0 then b OR 2 ^ j else b"
  have bj: "bit ?b' j = (p = 0)"
    using Cons.prems(3) by (simp add: bit_or_iff bit_mask_int)
  show ?case
  proof (cases "j = 0")
    case j0: True
    show ?thesis
    proof (cases i)
      case 0
      then show ?thesis using j0 Cons.prems(3)
        by (simp add: Let_def bit_word_of_int_iff bit_or_iff bit_1_iff)
    next
      case (Suc i')
      have ih: "bit (pack1I_loop ps (2 ^ 7) 0 ! ((7 - 7 + i') div 8)) (7 - (7 - 7 + i') mod 8)
                = (ps ! i' = 0)"
        by (rule Cons.IH) (use Cons.prems Suc in simp_all)
      have "(7 + Suc i') div 8 = Suc (i' div 8)" "(7 + Suc i') mod 8 = i' mod 8"
        by (simp_all add: div_add_self2 [symmetric] flip: add_Suc_right)
      then show ?thesis using j0 Suc ih by (simp add: Let_def)
    qed
  next
    case jpos: False
    have nz: "(2::int) ^ (j - 1) \<noteq> 0" by simp
    have step: "pack1I_loop (p # ps) (2 ^ j) b = pack1I_loop ps (2 ^ (j - 1)) ?b'"
      using jpos nz by (simp add: Let_def drop_bit_mask)
    show ?thesis
    proof (cases i)
      case 0
      have "bit (pack1I_loop ps (2 ^ (j - 1)) ?b' ! 0) j = bit ?b' j"
        by (rule pack1I_loop_keeps) (use jpos Cons.prems in auto)
      moreover have "(7 - j) div 8 = 0" "7 - (7 - j) mod 8 = j"
        using Cons.prems(1) by simp_all
      ultimately show ?thesis using 0 bj step by simp
    next
      case (Suc i')
      have clear: "\<forall>n\<le>j - 1. \<not> bit ?b' n"
        using Cons.prems(3) jpos by (auto simp: bit_or_iff bit_mask_int)
      have ih: "bit (pack1I_loop ps (2 ^ (j - 1)) ?b' ! ((7 - (j - 1) + i') div 8))
                  (7 - (7 - (j - 1) + i') mod 8) = (ps ! i' = 0)"
        by (rule Cons.IH [OF _ _ clear]) (use Cons.prems Suc in simp_all)
      have "7 - (j - 1) + i' = 7 - j + Suc i'"
        using jpos Cons.prems(1) by simp
      then show ?thesis using ih Suc step by simp
    qed
  qed
qed

lemma pack1I_bit:
  "x < length row \<Longrightarrow> bit (pack1I row ! (x div 8)) (7 - x mod 8) = (row ! x = 0)"
  using pack1I_loop_bit [of 7 x row 0] by (simp add: pack1I_def)

lemma concat_nth_uniform:
  "\<forall>xs\<in>set xss. length xs = n \<Longrightarrow> y < length xss \<Longrightarrow> c < n \<Longrightarrow>
   concat xss ! (y * n + c) = xss ! y ! c"
proof (induction xss arbitrary: y)
  case Nil
  then show ?case by simp
next
  case (Cons xs xss)
  show ?case
  proof (cases y)
    case 0
    then show ?thesis using Cons.prems by (simp add: nth_append)
  next
    case (Suc y')
    then have "concat xss ! (y' * n + c) = xss ! y' ! c"
      using Cons.prems by (intro Cons.IH) auto
    moreover have "length xs = n" using Cons.prems by simp
    ultimately show ?thesis using Suc by (simp add: nth_append)
  qed
qed

lemma length_concat_uniform:
  "\<forall>xs\<in>set xss. length xs = n \<Longrightarrow> length (concat xss) = length xss * n"
  by (induction xss) simp_all

lemma wf_rows: "wf_image img \<Longrightarrow> row \<in> set (pixels img) \<Longrightarrow> length row = fst (imsize img)"
  by (simp add: wf_image_def list_all_iff)

section \<open>The packer\<close>

text \<open>
  Claim C1.  For every bilevel raster (a well-formed mode \<^verbatim>\<open>'1'\<close> image) of width
  \<open>w > 0\<close> and height \<open>h > 0\<close>, the output of \<open>pack_to_pbm\<close> is the ASCII header
  \<^verbatim>\<open>P4\n{w} {h}\n\<close> followed at once by the raster data, every row packed on its own into
  \<open>ceil(w/8)\<close> bytes, so that the output is as long as the header plus
  \<open>h * ceil(w/8)\<close> bytes.
\<close>

theorem pack_to_pbm_layout:
  assumes "mode img = ''1''" and "wf_image img" and "imsize img = (w, h)"
    and "0 < w" and "0 < h"
  shows "pack_to_pbm P img =
           ascii (''P4'' @ [CHR 0x0A] @ str_d w @ '' '' @ str_d h @ [CHR 0x0A])
           @ concat (map pack1I (pixels img))
       \<and> (\<forall>row\<in>set (pixels img). length (pack1I row) = nat \<lceil>real w / 8\<rceil>)
       \<and> length (pack_to_pbm P img) =
           length (ascii (''P4'' @ [CHR 0x0A] @ str_d w @ '' '' @ str_d h @ [CHR 0x0A]))
           + h * nat \<lceil>real w / 8\<rceil>"
proof -
  have out: "pack_to_pbm P img =
      ascii (''P4'' @ [CHR 0x0A] @ str_d w @ '' '' @ str_d h @ [CHR 0x0A])
      @ concat (map pack1I (pixels img))"
    using assms by (simp add: pack_to_pbm_def tobytes_raw_1I_def pbm_header_def Let_def)
  have rows: "\<forall>row\<in>set (pixels img). length (pack1I row) = nat \<lceil>real w / 8\<rceil>"
    using assms(2,3) by (auto simp: length_pack1I ceil_div8 dest: wf_rows)
  then have "\<forall>bs\<in>set (map pack1I (pixels img)). length bs = nat \<lceil>real w / 8\<rceil>"
    by simp
  then have "length (concat (map pack1I (pixels img))) =
      length (map pack1I (pixels img)) * nat \<lceil>real w / 8\<rceil>"
    by (rule length_concat_uniform)
  moreover have "length (pixels img) = h"
    using assms(2,3) by (simp add: wf_image_def)
  ultimately show ?thesis using out rows by simp
qed

text \<open>The 8 by 1 white raster: the header \<^verbatim>\<open>P4\n8 1\n\<close> and one byte of data.\<close>

theorem pack_to_pbm_layout_witness:
  "pack_to_pbm example_library (Image_new ''1'' (8, 1) 255) =
     [0x50, 0x34, 0x0A, 0x38, 0x20, 0x31, 0x0A] @ [0x00]
   \<and> length (pack_to_pbm example_library (Image_new ''1'' (8, 1) 255)) = 7 + 1 * 1"
proof -
  let ?img = "Image_new ''1'' (8, 1) (255 :: byte)"
  have a: "mode ?img = ''1''" "wf_image ?img" "imsize ?img = (8, 1)" "(0::nat) < 8" "(0::nat) < 1"
    by (simp_all add: Image_new_def wf_image_def)
  have px: "concat (map pack1I (pixels ?img)) = [0]"
    by (simp add: Image_new_def pack1I_def Let_def eval_nat_numeral)
  have hd: "ascii (''P4'' @ [CHR 0x0A] @ str_d 8 @ '' '' @ str_d 1 @ [CHR 0x0A])
      = [0x50, 0x34, 0x0A, 0x38, 0x20, 0x31, 0x0A]"
    by (simp add: ascii_def str_d.simps)
  have c: "nat \<lceil>real 8 / 8\<rceil> = 1" by simp
  show ?thesis
    using pack_to_pbm_layout [OF a, of example_library] px hd c by simp
qed

section \<open>Direct dithering\<close>

lemma l2bit_zero: "(l2bit p = 0) = (p < 128)"
  by (auto simp: l2bit_def)

lemma l2bit_white_black: "l2bit 255 = 255" "l2bit 0 = 0"
  by (simp_all add: l2bit_def)

lemma replicate_8: "replicate 8 x = [x, x, x, x, x, x, x, x]"
  by (simp add: eval_nat_numeral)

lemma pack1I_eight:
  "pack1I [255, 255, 255, 255, 255, 255, 255, 255] = [0x00]"
  "pack1I [0, 0, 0, 0, 0, 0, 0, 0] = [0xFF]"
  by (simp_all add: pack1I_def Let_def drop_bit_eq_div)


lemma dither_direct_L:
  "mode g = ''L'' \<Longrightarrow>
   dither_direct P g = \<lparr>mode = ''1'', imsize = imsize g, pixels = map (map l2bit) (pixels g)\<rparr>"
  by (simp add: dither_direct_def convert_1_def)

lemma pack_to_pbm_bilevel:
  "mode img = ''1'' \<Longrightarrow>
   pack_to_pbm P img =
     pbm_header (fst (imsize img)) (snd (imsize img)) @ tobytes_raw_1I img"
  by (simp add: pack_to_pbm_def Let_def)

text \<open>
  Claim C2.  Under direct dithering followed by packing, a pixel whose gray value is at
  least 128 packs to bit 0 (white) and a pixel below 128 packs to bit 1 (black): the
  bit of pixel \<open>(x, y)\<close> in the raster data is set exactly when the gray value is below
  128.  In particular the 8 by 1 all-white gray raster packs to the one data byte
  \<open>0x00\<close> and the 8 by 1 all-black one to \<open>0xFF\<close>.
\<close>

theorem direct_dither_then_pack:
  assumes "mode g = ''L''" and "wf_image g" and "imsize g = (w, h)"
    and "x < w" and "y < h"
  shows "raster_bit (drop (length (pbm_header w h)) (pack_to_pbm P (dither_direct P g))) w x y
           = (pixels g ! y ! x < 128)
       \<and> pack_to_pbm P (dither_direct P (Image_new ''L'' (8, 1) 255)) = pbm_header 8 1 @ [0x00]
       \<and> pack_to_pbm P (dither_direct P (Image_new ''L'' (8, 1) 0)) = pbm_header 8 1 @ [0xFF]"
proof -
  let ?rows = "map (map l2bit) (pixels g)"
  let ?rb = "(w + 7) div 8"
  have len: "length (pixels g) = h" and row: "length (pixels g ! y) = w"
    using assms(2,3,5) by (simp_all add: wf_image_def list_all_length)
  have out: "pack_to_pbm P (dither_direct P g) = pbm_header w h @ concat (map pack1I ?rows)"
    using assms(1,3,4,5)
    by (simp add: dither_direct_L pack_to_pbm_bilevel tobytes_raw_1I_def)
  have uniform: "\<forall>bs\<in>set (map pack1I ?rows). length bs = ?rb"
    using assms(2,3) by (auto simp: length_pack1I wf_image_def list_all_iff)
  have "x div 8 < ?rb" using assms(4) by simp
  then have "concat (map pack1I ?rows) ! (y * ?rb + x div 8) = map pack1I ?rows ! y ! (x div 8)"
    using uniform len assms(5) by (intro concat_nth_uniform) simp_all
  also have "\<dots> = pack1I (map l2bit (pixels g ! y)) ! (x div 8)"
    using len assms(5) by simp
  finally have byte: "concat (map pack1I ?rows) ! (y * ?rb + x div 8)
      = pack1I (map l2bit (pixels g ! y)) ! (x div 8)" .
  have "bit (pack1I (map l2bit (pixels g ! y)) ! (x div 8)) (7 - x mod 8)
      = (map l2bit (pixels g ! y) ! x = 0)"
    using row assms(4) by (intro pack1I_bit) simp
  also have "\<dots> = (pixels g ! y ! x < 128)"
    using row assms(4) by (simp add: l2bit_zero)
  finally have b: "bit (pack1I (map l2bit (pixels g ! y)) ! (x div 8)) (7 - x mod 8)
      = (pixels g ! y ! x < 128)" .
  have d: "drop (length (pbm_header w h)) (pack_to_pbm P (dither_direct P g))
      = concat (map pack1I ?rows)"
    unfolding out by simp
  have general:
    "raster_bit (drop (length (pbm_header w h)) (pack_to_pbm P (dither_direct P g))) w x y
       = (pixels g ! y ! x < 128)"
    unfolding raster_bit_def d byte by (rule b)
  have white: "pack_to_pbm P (dither_direct P (Image_new ''L'' (8, 1) 255)) = pbm_header 8 1 @ [0x00]"
    by (simp add: dither_direct_L pack_to_pbm_bilevel tobytes_raw_1I_def Image_new_def
        replicate_8 l2bit_white_black pack1I_eight)
  have black: "pack_to_pbm P (dither_direct P (Image_new ''L'' (8, 1) 0)) = pbm_header 8 1 @ [0xFF]"
    by (simp add: dither_direct_L pack_to_pbm_bilevel tobytes_raw_1I_def Image_new_def
        replicate_8 l2bit_white_black pack1I_eight)
  show ?thesis using general white black by simp
qed

text \<open>A 3 by 2 raster: pixel \<open>(1, 0)\<close> has the value 128 and packs to 0, pixel \<open>(2, 1)\<close>
  has the value 5 and packs to 1.\<close>

theorem direct_dither_then_pack_witness:
  "raster_bit (drop 7 (pack_to_pbm example_library
       (dither_direct example_library
          \<lparr>mode = ''L'', imsize = (3, 2), pixels = [[127, 128, 255], [0, 200, 5]]\<rparr>))) 3 1 0
     = False
   \<and> raster_bit (drop 7 (pack_to_pbm example_library
       (dither_direct example_library
          \<lparr>mode = ''L'', imsize = (3, 2), pixels = [[127, 128, 255], [0, 200, 5]]\<rparr>))) 3 2 1
     = True"
proof -
  let ?g = "\<lparr>mode = ''L'', imsize = (3, 2),
             pixels = [[127, 128, 255], [0, 200, 5 :: byte]]\<rparr>"
  have a: "mode ?g = ''L''" "wf_image ?g" "imsize ?g = (3, 2)"
    by (simp_all add: wf_image_def)
  have h: "length (pbm_header 3 2) = 7"
    by (simp add: pbm_header_def ascii_def str_d.simps)
  have p1: "(1::nat) < 3" "(0::nat) < 2" and p2: "(2::nat) < 3" "(1::nat) < 2" by simp_all
  show ?thesis
    using direct_dither_then_pack [OF a p1, of example_library]
      direct_dither_then_pack [OF a p2, of example_library] h
    by simp
qed

section \<open>Facts about the float operations\<close>

lemmas double_eval = float_of_int_def round53_def bitlen.simps Let_def

text \<open>Two values every Python prints: \<^verbatim>\<open>1 / 10.0\<close> is the double \<^verbatim>\<open>0x1.999999999999ap-4\<close>,
  and \<^verbatim>\<open>49.0 * (1 / 49.0)\<close> is not 1 but \<^verbatim>\<open>0.9999999999999999\<close>, that is \<open>1 - 2 ^ -53\<close>.\<close>

lemma double_examples:
  "fdiv (float_of_int 1) (float_of_int 10) = Double 0x1999999999999A (- 56)"
  "fmul (float_of_int 49) (fdiv (float_of_int 1) (float_of_int 49)) = Double (2 ^ 53 - 1) (- 53)"
  by (simp_all add: double_eval)

lemma bitlen_le: "n < 2 ^ k \<Longrightarrow> bitlen n \<le> k"
proof (induction k arbitrary: n)
  case 0
  then show ?case by (simp add: bitlen.simps)
next
  case (Suc k)
  show ?case
  proof (cases "n = 0")
    case True
    then show ?thesis by (simp add: bitlen.simps)
  next
    case False
    have "n div 2 < 2 ^ k" using Suc.prems by simp
    then have "bitlen (n div 2) \<le> k" by (rule Suc.IH)
    then show ?thesis using False by (subst bitlen.simps) simp
  qed
qed

lemma bitlen_double: "0 < n \<Longrightarrow> bitlen (2 * n) = Suc (bitlen n)"
  by (subst bitlen.simps) simp

lemma bitlen_shift: "0 < n \<Longrightarrow> bitlen (n * 2 ^ k) = bitlen n + k"
proof (induction k)
  case 0
  then show ?case by simp
next
  case (Suc k)
  have "bitlen (2 * (n * 2 ^ k)) = Suc (bitlen (n * 2 ^ k))"
    using Suc.prems by (intro bitlen_double) simp
  then show ?case using Suc by (simp add: mult.commute mult.left_commute)
qed

lemma round53_zero: "round53 0 e = Double 0 e"
  by (simp add: round53_def bitlen.simps)

lemma float_of_int_small: "\<bar>n\<bar> < 2 ^ 53 \<Longrightarrow> float_of_int n = Double n 0"
proof -
  assume "\<bar>n\<bar> < 2 ^ 53"
  then have "nat \<bar>n\<bar> < 2 ^ 53" by (simp add: nat_less_iff)
  then have "bitlen (nat \<bar>n\<bar>) \<le> 53" by (rule bitlen_le)
  then show ?thesis by (simp add: float_of_int_def round53_def Let_def)
qed

lemma mant_fmul_right: "mant y = 0 \<Longrightarrow> mant (fmul x y) = 0"
  by (cases x; cases y) (simp add: round53_zero)

lemma mant_fmul_left: "mant x = 0 \<Longrightarrow> mant (fmul x y) = 0"
  by (cases x; cases y) (simp add: round53_zero)

text \<open>rounding a small integer shifted to the left loses nothing\<close>
lemma round53_shift:
  assumes "0 \<le> x" and "x < 2 ^ 53"
  shows "\<exists>j. round53 (x * 2 ^ k) (- int k) = Double (x * 2 ^ j) (- int j)"
proof (cases "x = 0")
  case True
  then have "round53 (x * 2 ^ k) (- int k) = Double (x * 2 ^ k) (- int k)"
    by (simp add: round53_zero)
  then show ?thesis ..
next
  case False
  with assms have xpos: "0 < x" by simp
  have nx: "0 < nat x" "nat x < 2 ^ 53" using xpos assms(2) by (simp_all add: nat_less_iff)
  have abs: "\<bar>x * 2 ^ k\<bar> = x * 2 ^ k" using xpos by simp
  have "nat (x * 2 ^ k) = nat x * 2 ^ k"
    using xpos by (simp add: nat_mult_distrib nat_power_eq)
  then have len: "bitlen (nat (x * 2 ^ k)) = bitlen (nat x) + k"
    using nx(1) by (simp add: bitlen_shift)
  have lx: "bitlen (nat x) \<le> 53" using nx(2) by (rule bitlen_le)
  show ?thesis
  proof (cases "bitlen (nat x) + k \<le> 53")
    case True
    then have "round53 (x * 2 ^ k) (- int k) = Double (x * 2 ^ k) (- int k)"
      by (simp add: round53_def abs len Let_def)
    then show ?thesis ..
  next
    case False
    define s where "s = bitlen (nat x) + k - 53"
    have s: "0 < s" "s \<le> k" using False lx by (simp_all add: s_def)
    have split: "x * 2 ^ k = x * 2 ^ (k - s) * 2 ^ s"
      using s(2) by (simp add: power_add [symmetric])
    have q: "(x * 2 ^ k) div 2 ^ s = x * 2 ^ (k - s)" and r: "(x * 2 ^ k) mod 2 ^ s = 0"
      by (simp_all add: split)
    have h: "(0::int) < 2 ^ (s - 1)" by simp
    have sg: "sgn (x * 2 ^ k) = 1" using xpos by simp
    have "round53 (x * 2 ^ k) (- int k) = Double (x * 2 ^ (k - s)) (- int k + int s)"
      using False h
      by (simp add: round53_def abs len Let_def s_def [symmetric] q r sg)
    also have "- int k + int s = - int (k - s)" using s(2) by simp
    finally show ?thesis ..
  qed
qed

lemma int_div_less:
  assumes "0 < c" and "m < b * c"
  shows "m div c < (b::int)"
proof -
  have "m = c * (m div c) + m mod c" by simp
  moreover have "0 \<le> m mod c" using assms(1) by simp
  ultimately have "c * (m div c) \<le> m" by linarith
  with assms(2) have "c * (m div c) < c * b" by (simp add: mult.commute)
  then show ?thesis using assms(1) by (simp add: mult_less_cancel_left_pos)
qed

lemma clamp_shifted:
  assumes "0 \<le> x" and "x \<le> 255"
  shows "py_int (py_max (Double 0 0) (py_min (Double 255 0) (Double (x * 2 ^ j) (- int j)))) = x"
proof -
  have l: "fless (Double (x * 2 ^ j) (- int j)) (Double 255 0) = (x < 255)"
    by (simp add: Let_def min_def)
  have g: "fless (Double 0 0) (Double (x * 2 ^ j) (- int j)) = (0 < x)"
    by (simp add: Let_def min_def zero_less_mult_iff)
  have g255: "fless (Double 0 0) (Double 255 0)" by (simp add: Let_def)
  have nn: "0 \<le> x * 2 ^ j" using assms(1) by simp
  have i: "py_int (Double (x * 2 ^ j) (- int j)) = x"
    using nn by (cases "j = 0") simp_all
  let ?v = "Double (x * 2 ^ j) (- int j)"
  have pm: "py_min (Double 255 0) ?v = (if x < 255 then ?v else Double 255 0)"
    unfolding py_min_def l ..
  have px: "py_max (Double 0 0) ?v = (if 0 < x then ?v else Double 0 0)"
    unfolding py_max_def g ..
  have p255: "py_max (Double 0 0) (Double 255 0) = Double 255 0"
    unfolding py_max_def using g255 by (simp only: if_True)
  have z: "py_int (Double 0 0) = 0" and t: "py_int (Double 255 0) = 255" by simp_all
  show ?thesis
  proof (cases "x < 255")
    case True
    then have m: "py_min (Double 255 0) ?v = ?v" by (simp only: pm if_True)
    show ?thesis
    proof (cases "0 < x")
      case pos: True
      then have "py_max (Double 0 0) ?v = ?v" by (simp only: px if_True)
      then show ?thesis by (simp only: m i)
    next
      case False
      then have "py_max (Double 0 0) ?v = Double 0 0" by (simp only: px if_False)
      then have "py_int (py_max (Double 0 0) (py_min (Double 255 0) ?v)) = 0"
        by (simp only: m z)
      moreover have "x = 0" using False assms(1) by simp
      ultimately show ?thesis by (simp only:)
    qed
  next
    case False
    then have "py_min (Double 255 0) ?v = Double 255 0" by (simp only: pm if_False)
    then have "py_int (py_max (Double 0 0) (py_min (Double 255 0) ?v)) = 255"
      by (simp only: p255 t)
    moreover have "x = 255" using False assms(2) by simp
    ultimately show ?thesis by (simp only:)
  qed
qed

lemma clamp_exact:
  assumes "mant f = 0" and "0 \<le> x" and "x \<le> 255"
  shows "py_int (py_max (float_of_int 0) (py_min (float_of_int 255) (fadd (float_of_int x) f))) = x"
proof -
  obtain e where f: "f = Double 0 e" using assms(1) by (cases f) simp
  have fx: "float_of_int x = Double x 0" using assms(2,3) by (intro float_of_int_small) simp
  have c: "float_of_int 0 = Double 0 0" "float_of_int 255 = Double 255 0"
    by (simp_all add: float_of_int_small)
  define k where "k = nat (- min 0 e)"
  have "min 0 e = - int k" by (simp add: k_def)
  then have "fadd (Double x 0) (Double 0 e) = round53 (x * 2 ^ k) (- int k)"
    by (simp add: Let_def)
  moreover obtain j where "round53 (x * 2 ^ k) (- int k) = Double (x * 2 ^ j) (- int j)"
    using round53_shift [of x k] assms(2,3) by auto
  ultimately show ?thesis using clamp_shifted [OF assms(2,3), of j] by (simp add: f fx c)
qed

lemma fless_255_upper: "fless v (Double 255 0) \<Longrightarrow> py_int v \<le> 255"
proof (cases v)
  case (Double m e)
  assume "fless v (Double 255 0)"
  then have lt: "m * 2 ^ nat (e - min e 0) < 255 * 2 ^ nat (0 - min e 0)"
    by (simp add: Double Let_def)
  show ?thesis
  proof (cases "0 \<le> e")
    case True
    then have "min e 0 = 0" by simp
    then show ?thesis using lt True by (simp add: Double)
  next
    case False
    then have "min e 0 = e" by simp
    then have m: "m < 255 * 2 ^ nat (- e)" using lt by simp
    have p: "(0::int) < 2 ^ nat (- e)" by simp
    show ?thesis
    proof (cases "0 \<le> m")
      case True
      have "m div 2 ^ nat (- e) < 255"
        using p m by (rule int_div_less)
      then show ?thesis using False True by (simp add: Double)
    next
      case neg: False
      then have "0 \<le> (- m) div 2 ^ nat (- e)" by (simp add: pos_imp_zdiv_nonneg_iff)
      then show ?thesis using False neg by (simp add: Double)
    qed
  qed
qed

lemma fless_0_lower: "fless (Double 0 0) v \<Longrightarrow> 0 \<le> py_int v"
proof (cases v)
  case (Double m e)
  assume "fless (Double 0 0) v"
  then have "0 < m * 2 ^ nat (e - min 0 e)" by (simp add: Double Let_def)
  then have "0 < m" by (simp add: zero_less_mult_iff)
  then show ?thesis by (simp add: Double pos_imp_zdiv_nonneg_iff)
qed

lemma clamp_range:
  "0 \<le> py_int (py_max (float_of_int 0) (py_min (float_of_int 255) v))
   \<and> py_int (py_max (float_of_int 0) (py_min (float_of_int 255) v)) \<le> 255"
proof -
  have c: "float_of_int 0 = Double 0 0" "float_of_int 255 = Double 255 0"
    by (simp_all add: float_of_int_small)
  show ?thesis
    unfolding c py_min_def py_max_def
    by (auto dest: fless_255_upper fless_0_lower)
qed

section \<open>The rounding error of the float operations\<close>

lemma bitlen_upper: "n < 2 ^ bitlen n"
proof (induction n rule: bitlen.induct)
  case (1 n)
  show ?case
  proof (cases "n = 0")
    case True
    then show ?thesis by simp
  next
    case False
    then have "n div 2 < 2 ^ bitlen (n div 2)" by (rule "1.IH")
    then have "n < 2 * 2 ^ bitlen (n div 2)" by linarith
    then show ?thesis using False by (subst bitlen.simps) simp
  qed
qed

lemma bitlen_lower: "0 < n \<Longrightarrow> 2 ^ (bitlen n - 1) \<le> n"
proof (induction n rule: bitlen.induct)
  case (1 n)
  then have n: "n \<noteq> 0" by simp
  have b: "bitlen n = Suc (bitlen (n div 2))" using n by (subst bitlen.simps) simp
  show ?case
  proof (cases "n div 2 = 0")
    case True
    then have "bitlen (n div 2) = 0" by (simp add: bitlen.simps)
    then show ?thesis using b "1.prems" by simp
  next
    case False
    then have pos: "0 < n div 2" by simp
    then have ih: "2 ^ (bitlen (n div 2) - 1) \<le> n div 2" using n by (intro "1.IH")
    have "0 < bitlen (n div 2)" using False by (subst bitlen.simps) simp
    then have "(2::nat) ^ bitlen (n div 2) = 2 * 2 ^ (bitlen (n div 2) - 1)"
      by (cases "bitlen (n div 2)") simp_all
    then have "(2::nat) ^ bitlen (n div 2) \<le> n" using ih by linarith
    then show ?thesis using b by simp
  qed
qed

text \<open>In integers: rounding moves a mantissa of more than 53 bits by at most
  \<open>2 ^ - 53\<close> of itself.\<close>

lemma round_to_53_bits:
  fixes a :: int
  assumes "0 < a" and "53 < bitlen (nat a)"
  defines "s \<equiv> bitlen (nat a) - 53"
  defines "q \<equiv> a div 2 ^ s" and "r \<equiv> a mod 2 ^ s"
  defines "q' \<equiv> (if 2 ^ (s - 1) < r \<or> (r = 2 ^ (s - 1) \<and> odd q) then q + 1 else q)"
  shows "\<bar>q' * 2 ^ s - a\<bar> * 2 ^ 53 \<le> a" and "0 < q'"
proof -
  have spos: "0 < s" using assms(2) by (simp add: s_def)
  have a: "a = q * 2 ^ s + r" unfolding q_def r_def by (rule div_mult_mod_eq [symmetric])
  have r: "0 \<le> r" "r < 2 ^ s" by (simp_all add: r_def)
  have half: "(2::int) ^ s = 2 * 2 ^ (s - 1)" using spos by (cases s) simp_all
  have near: "\<bar>q' * 2 ^ s - a\<bar> \<le> 2 ^ (s - 1)"
  proof (cases "2 ^ (s - 1) < r \<or> (r = 2 ^ (s - 1) \<and> odd q)")
    case True
    then have "q' = q + 1" by (simp add: q'_def)
    then have "q' * 2 ^ s - a = 2 ^ s - r" using a by (simp add: algebra_simps)
    then show ?thesis using True r half by auto
  next
    case False
    then have "q' = q" by (simp add: q'_def)
    then have "q' * 2 ^ s - a = - r" using a by simp
    then show ?thesis using False r by auto
  qed
  have "2 ^ (bitlen (nat a) - 1) \<le> nat a" using assms(1) by (intro bitlen_lower) simp
  then have "int (2 ^ (bitlen (nat a) - 1)) \<le> a" using assms(1) by linarith
  then have big: "(2::int) ^ (bitlen (nat a) - 1) \<le> a" by simp
  have "bitlen (nat a) - 1 = (s - 1) + 53" using assms(2) by (simp add: s_def)
  then have "(2::int) ^ (s - 1) * 2 ^ 53 \<le> a" using big by (simp add: power_add)
  moreover have "\<bar>q' * 2 ^ s - a\<bar> * 2 ^ 53 \<le> 2 ^ (s - 1) * 2 ^ 53"
    using near by (intro mult_right_mono) simp_all
  ultimately show "\<bar>q' * 2 ^ s - a\<bar> * 2 ^ 53 \<le> a" by linarith
  have "(2::int) ^ s \<le> a"
  proof -
    have "s \<le> bitlen (nat a) - 1" using assms(2) by (simp add: s_def)
    then have "(2::int) ^ s \<le> 2 ^ (bitlen (nat a) - 1)" by (intro power_increasing) simp_all
    then show ?thesis using big by linarith
  qed
  then have "1 \<le> q" unfolding q_def
    by (metis div_by_1 div_self pos_imp_zdiv_pos_iff zero_less_numeral zero_less_power 
        zdiv_mono1 power_not_zero zero_neq_numeral)
  then show "0 < q'" by (simp add: q'_def)
qed


lemma dval_Double: "dval (Double m e) = real_of_int m * 2 powi e"
  by (simp add: dval_def)

lemma round53_err:
  "\<bar>dval (round53 m e) - real_of_int m * 2 powi e\<bar> \<le> \<bar>real_of_int m * 2 powi e\<bar> / 2 ^ 53"
proof (cases "bitlen (nat \<bar>m\<bar>) \<le> 53")
  case True
  then have "round53 m e = Double m e" by (simp add: round53_def Let_def)
  then show ?thesis by (simp add: dval_Double)
next
  case False
  define a where "a = \<bar>m\<bar>"
  define s where "s = bitlen (nat a) - 53"
  define q' where "q' = (if 2 ^ (s - 1) < a mod 2 ^ s \<or> (a mod 2 ^ s = 2 ^ (s - 1) \<and> odd (a div 2 ^ s))
                         then a div 2 ^ s + 1 else a div 2 ^ s)"
  have long: "53 < bitlen (nat a)" using False by (simp add: a_def)
  have apos: "0 < a"
  proof (rule ccontr)
    assume "\<not> 0 < a"
    then have "nat a = 0" by simp
    then show False using long by (simp add: bitlen.simps)
  qed
  have int_err: "\<bar>q' * 2 ^ s - a\<bar> * 2 ^ 53 \<le> a"
    unfolding q'_def s_def by (rule round_to_53_bits(1) [OF apos long])
  have r: "round53 m e = Double (sgn m * q') (e + int s)"
    using False by (simp add: round53_def Let_def a_def [symmetric] s_def [symmetric] q'_def)
  have m: "m = sgn m * a" by (simp add: a_def sgn_mult_abs)
  have sg: "\<bar>real_of_int (sgn m)\<bar> = 1" using apos by (simp add: a_def sgn_if)
  have p: "(2::real) powi (e + int s) = 2 powi e * 2 ^ s"
    by (simp add: power_int_add)
  have "dval (round53 m e) - real_of_int m * 2 powi e
      = real_of_int (sgn m) * real_of_int (q' * 2 ^ s - a) * 2 powi e"
    by (subst m) (simp add: r dval_Double p algebra_simps)
  then have "\<bar>dval (round53 m e) - real_of_int m * 2 powi e\<bar>
      = real_of_int \<bar>q' * 2 ^ s - a\<bar> * 2 powi e"
    using sg by (simp add: abs_mult)
  moreover have "real_of_int \<bar>q' * 2 ^ s - a\<bar> \<le> real_of_int a / 2 ^ 53"
  proof -
    have "real_of_int (\<bar>q' * 2 ^ s - a\<bar> * 2 ^ 53) \<le> real_of_int a"
      using int_err by (simp only: of_int_le_iff)
    then show ?thesis by (simp add: field_simps)
  qed
  moreover have "\<bar>real_of_int m * 2 powi e\<bar> = real_of_int a * 2 powi e"
    by (simp add: a_def abs_mult)
  ultimately show ?thesis
    by (simp add: divide_simps mult_right_mono)
qed


lemma fmul_err:
  "\<bar>dval (fmul x y) - dval x * dval y\<bar> \<le> \<bar>dval x * dval y\<bar> / 2 ^ 53"
proof (cases x; cases y)
  fix m1 e1 m2 e2
  assume x: "x = Double m1 e1" and y: "y = Double m2 e2"
  have "dval x * dval y = real_of_int (m1 * m2) * 2 powi (e1 + e2)"
    by (simp add: x y dval_Double power_int_add)
  then show ?thesis using round53_err [of "m1 * m2" "e1 + e2"] by (simp add: x y)
qed

text \<open>Division: the quotient with its sticky bit is within 1 of twice the scaled
  exact quotient, which is larger than \<open>2 ^ 56\<close>.\<close>

lemma fdiv_err:
  assumes "mant y \<noteq> 0"
  shows "\<bar>dval (fdiv x y) - dval x / dval y\<bar> \<le> \<bar>dval x / dval y\<bar> / 2 ^ 52"
proof (cases x; cases y)
  fix m1 e1 m2 e2
  assume x: "x = Double m1 e1" and y: "y = Double m2 e2"
  have m2: "m2 \<noteq> 0" using assms y by simp
  define b where "b = \<bar>m2\<bar>"
  define k where "k = 55 + bitlen (nat b)"
  define n where "n = \<bar>m1\<bar> * 2 ^ k"
  define t where "t = 2 * (n div b) + (if n mod b = 0 then 0 else 1)"
  define E where "E = e1 - e2 - int k - 1"
  define u where "u = 2 * real_of_int n / real_of_int b"
  have bpos: "0 < b" using m2 by (simp add: b_def)
  have res: "fdiv x y = round53 (sgn m1 * sgn m2 * t) E"
    by (simp add: x y Let_def b_def [symmetric] k_def [symmetric] n_def [symmetric]
        t_def E_def)
  have n_split: "n = (n div b) * b + n mod b" by (rule div_mult_mod_eq [symmetric])
  have rem: "0 \<le> n mod b" "n mod b < b" using bpos by simp_all
  have u_eq: "u = 2 * real_of_int (n div b) + 2 * real_of_int (n mod b) / real_of_int b"
  proof -
    have "real_of_int n = real_of_int ((n div b) * b + n mod b)"
      by (simp only: div_mult_mod_eq)
    then have "real_of_int n = real_of_int (n div b) * real_of_int b + real_of_int (n mod b)"
      by (simp only: of_int_add of_int_mult)
    then show ?thesis using bpos by (simp add: u_def field_simps)
  qed
  have near: "\<bar>real_of_int t - u\<bar> \<le> (if m1 = 0 then 0 else 1)"
  proof (cases "n mod b = 0")
    case True
    then show ?thesis by (simp add: t_def u_eq)
  next
    case False
    then have "0 < n mod b" using rem by linarith
    then have "0 < real_of_int (n mod b) / real_of_int b" "real_of_int (n mod b) / real_of_int b < 1"
      using rem bpos by simp_all
    moreover have "m1 \<noteq> 0" using False by (auto simp: n_def)
    moreover have "real_of_int t - u = 1 - 2 * (real_of_int (n mod b) / real_of_int b)"
      using False by (simp add: t_def u_eq)
    ultimately show ?thesis by (simp add: abs_if)
  qed
  have u_nonneg: "0 \<le> u" using bpos by (simp add: u_def n_def)
  have t_nonneg: "0 \<le> t" using bpos rem
    by (auto simp: t_def n_def intro!: add_nonneg_nonneg mult_nonneg_nonneg pos_imp_zdiv_nonneg_iff [THEN iffD2])
  have u_big: "m1 \<noteq> 0 \<Longrightarrow> 2 ^ 56 \<le> u"
  proof -
    assume m1: "m1 \<noteq> 0"
    have "nat b < 2 ^ bitlen (nat b)" by (rule bitlen_upper)
    then have "b < 2 ^ bitlen (nat b)" using bpos
      by (metis nat_less_iff of_nat_numeral of_nat_power order_less_imp_le)
    then have "real_of_int b \<le> 2 ^ bitlen (nat b)"
      by (metis less_eq_real_def of_int_less_iff of_int_numeral of_int_power)
    moreover have "1 \<le> real_of_int \<bar>m1\<bar>" using m1 by (simp add: abs_if)
    ultimately have "real_of_int b * 2 ^ 56 \<le> 2 * (real_of_int \<bar>m1\<bar> * 2 ^ k)"
    proof -
      assume b: "real_of_int b \<le> 2 ^ bitlen (nat b)" and one: "1 \<le> real_of_int \<bar>m1\<bar>"
      have "(2::real) * 2 ^ k = 2 ^ bitlen (nat b) * 2 ^ 56"
        by (simp add: k_def power_add)
      moreover have "real_of_int b * 2 ^ 56 \<le> 2 ^ bitlen (nat b) * 2 ^ 56"
        using b by (intro mult_right_mono) simp_all
      moreover have "(2::real) * 2 ^ k \<le> 2 * (real_of_int \<bar>m1\<bar> * 2 ^ k)"
        using one by simp
      ultimately show ?thesis by linarith
    qed
    then show ?thesis using bpos by (simp add: u_def n_def field_simps)
  qed
  have exact: "dval x / dval y = real_of_int (sgn m1 * sgn m2) * u * 2 powi E"
  proof -
    have "real_of_int m1 = real_of_int (sgn m1) * real_of_int \<bar>m1\<bar>"
      by (metis of_int_mult sgn_mult_abs)
    moreover have "real_of_int m2 = real_of_int (sgn m2) * real_of_int b"
      unfolding b_def by (metis of_int_mult sgn_mult_abs)
    moreover have "(2::real) powi e1 / 2 powi e2 = 2 * 2 ^ k * 2 powi E"
      by (simp add: E_def power_int_diff power_int_add field_simps)
    moreover have "real_of_int (sgn m2) \<noteq> 0" "1 / real_of_int (sgn m2) = real_of_int (sgn m2)"
      using m2 by (simp_all add: sgn_if)
    ultimately show ?thesis using bpos
      by (simp add: x y dval_Double u_def n_def field_simps)
  qed
  show ?thesis
  proof (cases "m1 = 0")
    case True
    then have "t = 0" by (simp add: t_def n_def)
    then have "fdiv x y = Double 0 E" unfolding res by (simp add: round53_zero)
    then have "dval (fdiv x y) = 0" by (simp add: dval_Double)
    moreover have "dval x = 0" using True by (simp add: x dval_Double)
    ultimately show ?thesis by simp
  next
    case False
    then have sg: "\<bar>real_of_int (sgn m1 * sgn m2)\<bar> = 1" using m2 by (simp add: sgn_if)
    have ub: "2 ^ 56 \<le> u" using False by (rule u_big)
    have upos: "0 < u" using ub by (smt (verit) zero_less_power)
    have tu: "\<bar>real_of_int t - u\<bar> \<le> 1" using near False by simp
    have P: "0 < (2::real) powi E" by simp
    let ?S = "real_of_int (sgn m1 * sgn m2)"
    have r: "\<bar>dval (fdiv x y) - ?S * real_of_int t * 2 powi E\<bar>
          \<le> real_of_int t * 2 powi E / 2 ^ 53"
      using round53_err [of "sgn m1 * sgn m2 * t" E] sg t_nonneg
      by (simp add: res abs_mult)
    have "\<bar>dval (fdiv x y) - dval x / dval y\<bar>
        \<le> \<bar>dval (fdiv x y) - ?S * real_of_int t * 2 powi E\<bar>
          + \<bar>?S * real_of_int t * 2 powi E - dval x / dval y\<bar>"
      by simp
    moreover have "\<bar>?S * real_of_int t * 2 powi E - dval x / dval y\<bar>
        = \<bar>real_of_int t - u\<bar> * 2 powi E"
    proof -
      have "?S * real_of_int t * 2 powi E - dval x / dval y
          = ?S * ((real_of_int t - u) * 2 powi E)"
        by (simp add: exact algebra_simps)
      then show ?thesis using sg by (simp add: abs_mult)
    qed
    ultimately have "\<bar>dval (fdiv x y) - dval x / dval y\<bar>
        \<le> real_of_int t * 2 powi E / 2 ^ 53 + \<bar>real_of_int t - u\<bar> * 2 powi E"
      using r by linarith
    also have "\<dots> \<le> (u + 1) * 2 powi E / 2 ^ 53 + 1 * 2 powi E"
    proof -
      have "real_of_int t \<le> u + 1" using tu by linarith
      then have "real_of_int t * 2 powi E / 2 ^ 53 \<le> (u + 1) * 2 powi E / 2 ^ 53"
        using P by (simp add: divide_right_mono mult_right_mono)
      moreover have "\<bar>real_of_int t - u\<bar> * 2 powi E \<le> 1 * 2 powi E"
        using tu P by (intro mult_right_mono) simp_all
      ultimately show ?thesis by linarith
    qed
    also have "\<dots> \<le> u * 2 powi E / 2 ^ 52"
    proof -
      have "(u + 1) / 2 ^ 53 + 1 \<le> u / 2 ^ 52" using ub by (simp add: field_simps)
      then have "((u + 1) / 2 ^ 53 + 1) * 2 powi E \<le> (u / 2 ^ 52) * 2 powi E"
        using P by (intro mult_right_mono) simp_all
      then show ?thesis by (simp add: algebra_simps)
    qed
    also have "u * 2 powi E = \<bar>dval x / dval y\<bar>"
      using sg upos by (simp add: exact abs_mult)
    finally show ?thesis .
  qed
qed


lemma py_int_floor: "0 \<le> mant d \<Longrightarrow> py_int d = \<lfloor>dval d\<rfloor>"
proof (cases d)
  case (Double m e)
  assume "0 \<le> mant d"
  then have m: "0 \<le> m" using Double by simp
  show ?thesis
  proof (cases "0 \<le> e")
    case True
    then have "dval d = real_of_int (m * 2 ^ nat e)"
      by (simp add: Double dval_Double power_int_def)
    then have "\<lfloor>dval d\<rfloor> = m * 2 ^ nat e" by (simp only: floor_of_int)
    then show ?thesis using True by (simp add: Double)
  next
    case False
    then have "dval d = real_of_int m / real_of_int (2 ^ nat (- e))"
      by (simp add: Double dval_Double power_int_def field_simps)
    then have "\<lfloor>dval d\<rfloor> = m div 2 ^ nat (- e)" by (simp only: floor_divide_of_int_eq)
    then show ?thesis using False m by (simp add: Double)
  qed
qed

lemma mant_nonneg: "0 \<le> dval d \<Longrightarrow> 0 \<le> mant d"
proof -
  assume "0 \<le> dval d"
  moreover have "0 < (2::real) powi expo d" by simp
  ultimately have "0 \<le> real_of_int (mant d)"
    unfolding dval_def by (simp add: zero_le_mult_iff not_le [symmetric])
  then show ?thesis by simp
qed

lemma finite64_bound:
  assumes "\<bar>dval d\<bar> < 2 ^ 1024"
  shows "finite64 d"
proof (rule ccontr)
  assume nf: "\<not> finite64 d"
  define a where "a = nat \<bar>mant d\<bar>"
  from nf have nz: "mant d \<noteq> 0" and big: "1024 < int (bitlen a) + expo d"
    by (simp_all add: finite64_def a_def)
  have apos: "0 < a" using nz by (simp add: a_def)
  then have "2 ^ (bitlen a - 1) \<le> a" by (rule bitlen_lower)
  then have "real (2 ^ (bitlen a - 1)) \<le> real a" by (simp only: of_nat_le_iff)
  then have lo: "(2::real) ^ (bitlen a - 1) \<le> real a" by simp
  have "(2::real) powi 1024 \<le> 2 powi (int (bitlen a - 1) + expo d)"
    using big by (intro power_int_increasing) simp_all
  also have "\<dots> = 2 ^ (bitlen a - 1) * 2 powi expo d"
    by (simp add: power_int_add)
  also have "\<dots> \<le> real a * 2 powi expo d"
    using lo by (intro mult_right_mono) simp_all
  also have "real a * 2 powi expo d = \<bar>dval d\<bar>"
    by (simp add: dval_def abs_mult a_def)
  finally show False using assms by simp
qed

lemma py_float_small: "\<bar>n\<bar> < 2 ^ 53 \<Longrightarrow> py_float n = Inr (Double n 0)"
proof -
  assume n: "\<bar>n\<bar> < 2 ^ 53"
  then have f: "float_of_int n = Double n 0" by (rule float_of_int_small)
  have "\<bar>real_of_int n\<bar> < 2 ^ 53" using n
    by (metis of_int_abs of_int_less_iff of_int_numeral of_int_power)
  also have "(2::real) ^ 53 < 2 ^ 1024" by simp
  finally have "\<bar>dval (Double n 0)\<bar> < 2 ^ 1024" by (simp add: dval_Double)
  then have "finite64 (Double n 0)" by (rule finite64_bound)
  then show ?thesis by (simp add: py_float_def f)
qed


text \<open>The height the resizer asks for: the exact quotient \<open>H * T / W\<close>, off by the
  two roundings, truncated.\<close>

lemma target_height_bounds:
  fixes W H :: nat and T :: int
  assumes "0 < W" and "W < 2 ^ 31" and "H < 2 ^ 31" and "0 < T" and "T < 2 ^ 31"
  defines "X \<equiv> real H * real_of_int T / real W"
  shows "\<exists>h. target_height_of (W, H) T = Inr h \<and> 0 \<le> h
           \<and> real_of_int h \<le> X + X / 2 ^ 51 \<and> X - X / 2 ^ 51 - 1 < real_of_int h"
proof -
  define d where "d = fdiv (Double T 0) (Double (int W) 0)"
  define p where "p = fmul (Double (int H) 0) d"
  define Q where "Q = real_of_int T / real W"
  have Wr: "0 < real W" "real W < 2 ^ 31" using assms(1,2) by simp_all
  have Hr: "0 \<le> real H" "real H < 2 ^ 31" using assms(3) by simp_all
  have Tr: "0 < real_of_int T" "real_of_int T < 2 ^ 31" using assms(4,5) by simp_all
  have Qpos: "0 < Q" using Wr Tr by (simp add: Q_def)
  have X: "X = real H * Q" by (simp add: X_def Q_def)
  have Xnn: "0 \<le> X" using Hr Qpos by (simp add: X)
  have "Q \<le> real_of_int T" using Wr Tr assms(1) by (simp add: Q_def field_simps)
  then have "Q < 2 ^ 31" using Tr by linarith
  then have "X \<le> 2 ^ 31 * 2 ^ 31" unfolding X using Hr Qpos by (intro mult_mono) simp_all
  then have Xsmall: "X \<le> 2 ^ 62" by simp
  \<comment> \<open>the three conversions are exact\<close>
  have fw: "py_float (int W) = Inr (Double (int W) 0)"
    and ft: "py_float T = Inr (Double T 0)"
    and fh: "py_float (int H) = Inr (Double (int H) 0)"
    using assms(2,3,4,5) by (intro py_float_small; simp)+
  \<comment> \<open>the quotient\<close>
  have "\<bar>dval d - dval (Double T 0) / dval (Double (int W) 0)\<bar>
      \<le> \<bar>dval (Double T 0) / dval (Double (int W) 0)\<bar> / 2 ^ 52"
    unfolding d_def using assms(1) by (intro fdiv_err) simp
  then have dq: "\<bar>dval d - Q\<bar> \<le> Q / 2 ^ 52"
    using Qpos by (simp add: dval_Double Q_def)
  then have d_lo: "Q - Q / 2 ^ 52 \<le> dval d" and d_hi: "dval d \<le> Q + Q / 2 ^ 52"
    by linarith+
  have d_nn: "0 \<le> dval d"
  proof -
    have "0 \<le> Q - Q / 2 ^ 52" using Qpos by (simp add: field_simps)
    then show ?thesis using d_lo by linarith
  qed
  \<comment> \<open>the product\<close>
  define Y where "Y = real H * dval d"
  have Ynn: "0 \<le> Y" using Hr d_nn by (simp add: Y_def)
  have "\<bar>dval p - dval (Double (int H) 0) * dval d\<bar>
      \<le> \<bar>dval (Double (int H) 0) * dval d\<bar> / 2 ^ 53"
    unfolding p_def by (rule fmul_err)
  then have py: "\<bar>dval p - Y\<bar> \<le> Y / 2 ^ 53"
    using Ynn by (simp add: dval_Double Y_def)
  then have p_lo: "Y - Y / 2 ^ 53 \<le> dval p" and p_hi: "dval p \<le> Y + Y / 2 ^ 53"
    by linarith+
  have Y_lo: "X - X / 2 ^ 52 \<le> Y" and Y_hi: "Y \<le> X + X / 2 ^ 52"
  proof -
    have "real H * (Q - Q / 2 ^ 52) \<le> real H * dval d"
      using d_lo Hr by (intro mult_left_mono) simp_all
    then show "X - X / 2 ^ 52 \<le> Y" by (simp add: X Y_def algebra_simps)
    have "real H * dval d \<le> real H * (Q + Q / 2 ^ 52)"
      using d_hi Hr by (intro mult_left_mono) simp_all
    then show "Y \<le> X + X / 2 ^ 52" by (simp add: X Y_def algebra_simps)
  qed
  have p_nn: "0 \<le> dval p"
  proof -
    have "0 \<le> Y - Y / 2 ^ 53" using Ynn by (simp add: field_simps)
    then show ?thesis using p_lo by linarith
  qed
  have p_upper: "dval p \<le> X + X / 2 ^ 51"
  proof -
    have "Y + Y / 2 ^ 53 = Y * (1 + 1 / 2 ^ 53)" by (simp add: algebra_simps)
    also have "\<dots> \<le> (X + X / 2 ^ 52) * (1 + 1 / 2 ^ 53)"
      using Y_hi by (intro mult_right_mono) simp_all
    also have "\<dots> = X * ((1 + 1 / 2 ^ 52) * (1 + 1 / 2 ^ 53))" by (simp add: algebra_simps)
    also have "\<dots> \<le> X * (1 + 1 / 2 ^ 51)"
      using Xnn by (intro mult_left_mono) simp_all
    finally show ?thesis using p_hi by (simp add: algebra_simps)
  qed
  have p_lower: "X - X / 2 ^ 51 \<le> dval p"
  proof -
    have "X * (1 - 1 / 2 ^ 51) \<le> X * ((1 - 1 / 2 ^ 52) * (1 - 1 / 2 ^ 53))"
      using Xnn by (intro mult_left_mono) simp_all
    also have "\<dots> = (X - X / 2 ^ 52) * (1 - 1 / 2 ^ 53)" by (simp add: algebra_simps)
    also have "\<dots> \<le> Y * (1 - 1 / 2 ^ 53)"
      using Y_lo by (intro mult_right_mono) simp_all
    also have "\<dots> = Y - Y / 2 ^ 53" by (simp add: algebra_simps)
    finally show ?thesis using p_lo by (simp add: algebra_simps)
  qed
  have "\<bar>dval p\<bar> \<le> 2 ^ 62 + 2 ^ 62 / 2 ^ 51"
    using p_nn p_upper Xsmall by (simp add: field_simps) 
  also have "\<dots> < (2::real) ^ 1024" by simp
  finally have fin: "finite64 p" by (rule finite64_bound)
  have w0: "mant (Double (int W) 0) \<noteq> 0" using assms(1) by simp
  have th: "target_height_of (W, H) T = Inr (py_int p)"
    unfolding target_height_of_def fst_conv snd_conv fw ft fh sum.case Let_def
      d_def [symmetric] p_def [symmetric]
    using fin w0 by (simp del: fdiv.simps fmul.simps)
  have fl: "py_int p = \<lfloor>dval p\<rfloor>" using p_nn by (intro py_int_floor mant_nonneg)
  have "0 \<le> py_int p" using p_nn by (simp add: fl)
  moreover have "real_of_int (py_int p) \<le> X + X / 2 ^ 51"
    using p_upper by (simp add: fl) linarith
  moreover have "X - X / 2 ^ 51 - 1 < real_of_int (py_int p)"
    using p_lower by (simp add: fl) linarith
  ultimately show ?thesis using th by blast
qed

section \<open>The fetcher's guard\<close>

lemmas lower_eval = lower_def lower_char_def char_of_def bit_Suc_0_iff

lemma lower_char_fixed:
  assumes "lower_char c = d" and "(of_char d :: nat) < 97"
  shows "c = d"
proof (cases "65 \<le> (of_char c :: nat) \<and> (of_char c :: nat) \<le> 90")
  case True
  then have "d = char_of ((of_char c :: nat) + 32)"
    using assms(1) by (simp add: lower_char_def)
  then have "(of_char d :: nat) = ((of_char c :: nat) + 32) mod 256"
    by (simp add: of_char_of)
  then show ?thesis using True assms(2) by simp
next
  case False
  then show ?thesis using assms(1) by (auto simp: lower_char_def Let_def)
qed

lemma lower_char_colon: "lower_char c = CHR '':'' \<Longrightarrow> c = CHR '':''"
  by (rule lower_char_fixed) simp_all

lemma lower_char_not_colon:
  "lower_char c = CHR ''h'' \<Longrightarrow> c \<noteq> CHR '':''"
  "lower_char c = CHR ''t'' \<Longrightarrow> c \<noteq> CHR '':''"
  "lower_char c = CHR ''p'' \<Longrightarrow> c \<noteq> CHR '':''"
  "lower_char c = CHR ''s'' \<Longrightarrow> c \<noteq> CHR '':''"
  by (auto simp: lower_char_def)

lemma startswith_map_Cons:
  "startswith (map f xs) (p # ps) = (\<exists>y ys. xs = y # ys \<and> f y = p \<and> startswith (map f ys) ps)"
  by (cases xs) auto

lemma adapter_scheme:
  assumes "has_adapter url"
  shows "has_scheme url ''http'' \<or> has_scheme url ''https''"
  using assms
  by (auto simp: has_adapter_def has_scheme_def lower_def startswith_map_Cons url_scheme_def
      lower_char_not_colon dest!: lower_char_colon)

lemma download_image_no_adapter:
  assumes "\<not> has_adapter url"
  shows "\<exists>m. download_image P url timeout reqs = (Inl (ValueError m), reqs)"
  using assms by (simp add: download_image_def requests_get_def download_failed_def)

text \<open>
  Claim C6.  For every URL whose scheme is neither http nor https the fetcher fails
  with its invalid-input error, a \<^verbatim>\<open>ValueError\<close>, and no request goes out; the fetcher
  proceeds, to a request or to an image, only if the scheme is http or https.
\<close>

theorem download_image_scheme:
  "(\<not> has_scheme url ''http'' \<and> \<not> has_scheme url ''https'' \<longrightarrow>
      (\<exists>m. download_image P url timeout reqs = (Inl (ValueError m), reqs)))
   \<and> (snd (download_image P url timeout reqs) \<noteq> reqs \<or>
       \<not> isl (fst (download_image P url timeout reqs)) \<longrightarrow>
      has_scheme url ''http'' \<or> has_scheme url ''https'')"
proof (cases "has_adapter url")
  case True
  then show ?thesis using adapter_scheme by blast
next
  case False
  then obtain m where "download_image P url timeout reqs = (Inl (ValueError m), reqs)"
    using download_image_no_adapter by blast
  then show ?thesis by auto
qed

text \<open>An ftp URL stops at the guard; \<^verbatim>\<open>httpx://a\<close> and \<^verbatim>\<open>http\<close> pass the guard and are
  refused by \<^verbatim>\<open>requests\<close>, no request on the log; an https URL goes out to the
  server.\<close>

theorem download_image_scheme_witness:
  "\<not> has_scheme ''ftp://a/b.png'' ''http'' \<and> \<not> has_scheme ''ftp://a/b.png'' ''https''
   \<and> download_image example_server ''ftp://a/b.png'' 10 []
       = (Inl (ValueError ''URL must start with http/https''), [])
   \<and> \<not> has_scheme ''httpx://a'' ''http'' \<and> \<not> has_scheme ''httpx://a'' ''https''
   \<and> (\<exists>m. download_image example_server ''httpx://a'' 10 [] = (Inl (ValueError m), []))
   \<and> \<not> has_scheme ''http'' ''http'' \<and> \<not> has_scheme ''http'' ''https''
   \<and> (\<exists>m. download_image example_server ''http'' 10 [] = (Inl (ValueError m), []))
   \<and> has_scheme ''https://a/b.png'' ''https''
   \<and> download_image example_server ''https://a/b.png'' 10 []
       = (Inr (Image_new ''L'' (2, 2) 128), [(''https://a/b.png'', 10)])"
proof -
  have s: "\<not> has_scheme ''ftp://a/b.png'' ''http''" "\<not> has_scheme ''ftp://a/b.png'' ''https''"
    "\<not> has_scheme ''httpx://a'' ''http''" "\<not> has_scheme ''httpx://a'' ''https''"
    "\<not> has_scheme ''http'' ''http''" "\<not> has_scheme ''http'' ''https''"
    "has_scheme ''https://a/b.png'' ''https''"
    by (simp_all add: has_scheme_def url_scheme_def lower_eval)
  have g: "download_image example_server ''ftp://a/b.png'' 10 []
      = (Inl (ValueError ''URL must start with http/https''), [])"
    by (simp add: download_image_def)
  have h: "has_adapter ''https://a/b.png''"
    by (simp add: has_adapter_def lower_eval)
  have d: "download_image example_server ''https://a/b.png'' 10 []
      = (Inr (Image_new ''L'' (2, 2) 128), [(''https://a/b.png'', 10)])"
    by (simp add: download_image_def requests_get_def h read_response_def example_server_def
        example_library_def size_limit_def)
  show ?thesis
    using download_image_scheme [of "''httpx://a''" example_server 10 "[]"]
      download_image_scheme [of "''http''" example_server 10 "[]"]
      download_image_scheme [of "''ftp://a/b.png''" example_server 10 "[]"]
      download_image_scheme [of "''https://a/b.png''" example_server 10 "[]"]
    by (simp add: s g d)
qed

section \<open>The resizer\<close>

lemma target_height_values:
  "target_height_of (10, 10) (- 5) = Inr (- 5)"
  "target_height_of (10, 10) 0 = Inr 0"
  "target_height_of (10, 10) (- 2147483649) = Inr (- 2147483649)"
  "target_height_of (1000, 500) 384 = Inr 192"
  "target_height_of (1000, 502) 384 = Inr 192"
  "target_height_of (49, 49) 1 = Inr 0"
  "target_height_of (2, 2) 384 = Inr 384"
  by (simp_all add: target_height_of_def py_float_def finite64_def double_eval)

lemma target_height_error:
  assumes "0 < fst sz" and "fst sz < 2 ^ 31" and "target_height_of sz T = Inl e"
  shows "e = OverflowError"
proof -
  have "py_float (int (fst sz)) = Inr (Double (int (fst sz)) 0)"
    using assms(2) by (intro py_float_small) simp
  then show ?thesis using assms(1,3)
    by (auto simp: target_height_of_def py_float_def Let_def split: sum.splits if_splits
        simp del: fdiv.simps fmul.simps)
qed

text \<open>
  Claim C7 says that for every target width \<open>T \<le> 0\<close> the resizer fails with one
  error of its own, the invalid-input error of the module.  At
  \<open>T = - 2 ^ 31 - 1\<close> on a 10 by 10 image the call fails with \<^verbatim>\<open>OverflowError\<close>, which
  comes out of the library when it reads the size as C ints and is not the
  \<^verbatim>\<open>ValueError\<close> of the module.
\<close>

theorem resize_image_overflow_counterexample:
  "resize_image example_library (Image_new ''L'' (10, 10) 0) (- 2147483649) = Inl OverflowError"
  by (simp add: resize_image_def Image_resize_def Image_new_def target_height_values c_int_def)

text \<open>
  Claim C7, amended.  The resizer does not check the target width.  For every image
  (width above 0, sizes C ints) and every target width \<open>T \<le> 0\<close> it returns no image:
  the call fails in the library, with \<^verbatim>\<open>ValueError: height and width must be > 0\<close>
  when \<open>T\<close> and the computed height fit a C int, and with \<^verbatim>\<open>OverflowError\<close> when
  they do not.
\<close>

theorem resize_image_nonpositive_width:
  assumes "T \<le> 0" and "0 < fst (imsize img)" and "fst (imsize img) < 2 ^ 31"
  shows "resize_image P img T =
           Inl (case target_height_of (imsize img) T of
                  Inl e \<Rightarrow> OverflowError
                | Inr h \<Rightarrow>
                    if c_int T \<and> c_int h then ValueError ''height and width must be > 0''
                    else OverflowError)"
proof (cases "target_height_of (imsize img) T")
  case (Inl e)
  then have "e = OverflowError" using assms(2,3) by (intro target_height_error)
  then show ?thesis using Inl by (simp add: resize_image_def)
next
  case (Inr h)
  then show ?thesis using assms(1,2) by (auto simp: resize_image_def Image_resize_def)
qed

theorem resize_image_nonpositive_width_witness:
  "resize_image example_library (Image_new ''L'' (10, 10) 0) (- 5)
     = Inl (ValueError ''height and width must be > 0'')
   \<and> resize_image example_library (Image_new ''L'' (10, 10) 0) 0
     = Inl (ValueError ''height and width must be > 0'')"
proof -
  let ?img = "Image_new ''L'' (10, 10) (0 :: byte)"
  have s: "imsize ?img = (10, 10)" by (simp add: Image_new_def)
  have a: "(- 5 :: int) \<le> 0" and b: "(0 :: int) \<le> 0"
    and w: "0 < fst (imsize ?img)" "fst (imsize ?img) < 2 ^ 31"
    by (simp_all add: s)
  show ?thesis
    using resize_image_nonpositive_width [OF a w, of example_library]
      resize_image_nonpositive_width [OF b w, of example_library]
    by (simp add: s target_height_values c_int_def)
qed

text \<open>
  Claim C3 says that the height of the result is \<open>round(H0 * T / W0)\<close>.  A 1000 by
  502 source resized to the width 384 comes out 192 high: \<open>502 * 0.384\<close> is 192.768,
  which \<^verbatim>\<open>int\<close> truncates, where rounding gives 193.
\<close>

theorem resize_image_round_counterexample:
  "map_sum id imsize (resize_image example_library (Image_new ''L'' (1000, 502) 0) 384)
     = Inr (384, 192)
   \<and> round (502 * 384 / 1000 :: real) = 193"
proof -
  have "round (502 * 384 / 1000 :: real) = 193"
    by (simp add: round_def)
  moreover have "resample example_library (Image_new ''L'' (1000, 502) 0) (384, 192)
      = Inr (replicate 192 (replicate 384 0))"
    by (simp add: example_library_def)
  ultimately show ?thesis
    by (simp add: resize_image_def Image_resize_def Image_new_def target_height_values
        c_int_def)
qed

text \<open>
  Claim C3, amended.  For a source of size \<open>(W0, H0)\<close> with \<open>0 < W0\<close> and a target
  width \<open>0 < T\<close>, all below \<open>2 ^ 31\<close>, the resizer asks the library for the width \<open>T\<close>
  and the height \<open>h = int(float(H0) * (T / float(W0)))\<close>.  This \<open>h\<close> is the quotient
  \<open>X = H0 * T / W0\<close> truncated towards zero, not rounded, up to the rounding error of
  the two float operations: \<open>X - X / 2 ^ 51 - 1 < h \<le> X + X / 2 ^ 51\<close>.  Whenever the
  resizer returns an image, its width is exactly \<open>T\<close> and its height exactly \<open>h\<close>; and
  it returns one when \<open>1 \<le> h < 2 ^ 31\<close> and the library's resampling does not fail.
\<close>

theorem resize_image_size:
  assumes "imsize img = (W0, H0)" and "0 < W0" and "W0 < 2 ^ 31" and "H0 < 2 ^ 31"
    and "0 < T" and "T < 2 ^ 31"
  shows "\<exists>h. target_height_of (W0, H0) T = Inr h
           \<and> real_of_int h \<le> real H0 * real_of_int T / real W0
                               + real H0 * real_of_int T / real W0 / 2 ^ 51
           \<and> real H0 * real_of_int T / real W0
               - real H0 * real_of_int T / real W0 / 2 ^ 51 - 1 < real_of_int h
           \<and> (\<forall>img'. resize_image P img T = Inr img' \<longrightarrow>
                 imsize img' = (nat T, nat h) \<and> mode img' = mode img)
           \<and> (1 \<le> h \<and> h < 2 ^ 31 \<and> \<not> isl (resample P img (nat T, nat h)) \<longrightarrow>
                 \<not> isl (resize_image P img T))"
proof -
  obtain h where h: "target_height_of (W0, H0) T = Inr h" and h0: "0 \<le> h"
    and up: "real_of_int h \<le> real H0 * real_of_int T / real W0
                               + real H0 * real_of_int T / real W0 / 2 ^ 51"
    and lo: "real H0 * real_of_int T / real W0
               - real H0 * real_of_int T / real W0 / 2 ^ 51 - 1 < real_of_int h"
    using target_height_bounds [OF assms(2-6)] by blast
  have r: "resize_image P img T = Image_resize P img (T, h)"
    by (simp add: resize_image_def assms(1) h)
  have size: "\<forall>img'. resize_image P img T = Inr img' \<longrightarrow>
      imsize img' = (nat T, nat h) \<and> mode img' = mode img"
    unfolding r using assms(1)
    by (auto simp: Image_resize_def split: if_splits sum.splits)
  have ok: "1 \<le> h \<and> h < 2 ^ 31 \<and> \<not> isl (resample P img (nat T, nat h)) \<longrightarrow>
      \<not> isl (resize_image P img T)"
    unfolding r using assms(5,6)
    by (auto simp: Image_resize_def c_int_def split: sum.splits)
  show ?thesis using h up lo size ok by blast
qed

theorem resize_image_size_witness:
  "target_height_of (1000, 500) 384 = Inr 192
   \<and> (192 :: real) \<le> 500 * 384 / 1000 + 500 * 384 / 1000 / 2 ^ 51
   \<and> (500 * 384 / 1000 - 500 * 384 / 1000 / 2 ^ 51 - 1 :: real) < 192
   \<and> map_sum id imsize (resize_image example_library (Image_new ''L'' (1000, 500) 0) 384)
       = Inr (384, 192)"
proof -
  let ?img = "Image_new ''L'' (1000, 500) (0 :: byte)"
  have a: "imsize ?img = (1000, 500)" "(0::nat) < 1000" "(1000::nat) < 2 ^ 31"
    "(500::nat) < 2 ^ 31" "(0::int) < 384" "(384::int) < 2 ^ 31"
    by (simp_all add: Image_new_def)
  have rs: "resample example_library ?img (384, 192) = Inr (replicate 192 (replicate 384 0))"
    by (simp add: example_library_def)
  have run: "map_sum id imsize (resize_image example_library ?img 384) = Inr (384, 192)"
    by (simp add: resize_image_def Image_resize_def a(1) target_height_values c_int_def rs)
  show ?thesis
    using resize_image_size [OF a, of example_library] run
    by (simp add: target_height_values)
qed

section \<open>The tone curve\<close>

lemma example_library_colours:
  "to_rgba example_library = (\<lambda>md p. (p, p, p, 255))"
  "composite example_library = (\<lambda>dst src. src)"
  "luma example_library = (\<lambda>c. fst c)"
  by (simp_all add: example_library_def)

lemma factor_endpoints: "mant (factor B 0) = 0" "mant (factor B 255) = 0"
proof -
  have z: "mant (fdiv (float_of_int 0) (Double 255 0)) = 0"
    by (simp add: double_eval)
  show "mant (factor B 0) = 0"
    unfolding factor_def by (intro mant_fmul_left mant_fmul_right z)
  have o: "mant (fsub (float_of_int 1) (fdiv (float_of_int 255) (Double 255 0))) = 0"
    by (simp add: double_eval)
  show "mant (factor B 255) = 0"
    unfolding factor_def by (intro mant_fmul_left mant_fmul_right o)
qed

lemma factor_neutral: "mant (factor 128 x) = 0"
proof -
  have "mant (float_of_int (128 - 128)) = 0" by (simp add: float_of_int_small)
  then show ?thesis unfolding factor_def by (intro mant_fmul_left)
qed

text \<open>
  Claim C4.  For every brightness \<open>B\<close> in 0..255 the curve factor is zero at luma 0
  and at luma 255, so the tone curve maps 0 to 0 and 255 to 255; at brightness 128
  the transform is the identity on every luma value (the curve itself is, and
  \<open>to_grayscale\<close> does not even apply it); and every value the curve returns lies in
  0..255.
\<close>

theorem tone_curve:
  assumes "0 \<le> B" and "B \<le> 255" and "0 \<le> x" and "x \<le> 255"
  shows "mant (factor B 0) = 0 \<and> mant (factor B 255) = 0
       \<and> adjust B 0 = 0 \<and> adjust B 255 = 255
       \<and> adjust 128 x = x
       \<and> to_grayscale P img 128 alpha_as_white = flatten_to_L P img alpha_as_white
       \<and> 0 \<le> adjust B x \<and> adjust B x \<le> 255"
proof -
  have "adjust B 0 = 0" "adjust B 255 = 255"
    unfolding adjust_def Let_def by (rule clamp_exact; simp add: factor_endpoints)+
  moreover have "adjust 128 x = x"
    unfolding adjust_def Let_def using assms(3,4) by (intro clamp_exact factor_neutral)
  moreover have "to_grayscale P img 128 alpha_as_white = flatten_to_L P img alpha_as_white"
    by (simp add: to_grayscale_def)
  moreover have "0 \<le> adjust B x \<and> adjust B x \<le> 255"
    unfolding adjust_def Let_def by (rule clamp_range)
  ultimately show ?thesis by (simp add: factor_endpoints)
qed

lemma adjust_examples: "adjust 200 100 = 134" "adjust 127 128 = 127" "adjust 0 128 = 64"
  by (simp_all add: adjust_def factor_def py_min_def py_max_def double_eval)

theorem tone_curve_witness:
  "mant (factor 200 0) = 0 \<and> mant (factor 200 255) = 0
   \<and> adjust 200 0 = 0 \<and> adjust 200 255 = 255 \<and> adjust 128 100 = 100
   \<and> to_grayscale example_library (Image_new ''L'' (2, 2) 100) 128 True
       = Image_new ''L'' (2, 2) 100
   \<and> adjust 200 100 = 134"
proof -
  have a: "(0::int) \<le> 200" "(200::int) \<le> 255" "(0::int) \<le> 100" "(100::int) \<le> 255"
    by simp_all
  have f: "flatten_to_L example_library (Image_new ''L'' (2, 2) 100) True
      = Image_new ''L'' (2, 2) 100"
    by (simp add: flatten_to_L_def convert_RGBA_def alpha_composite_def convert_L_def
        Image_new_def example_library_colours eval_nat_numeral)
  show ?thesis
    using tone_curve [OF a, of example_library "Image_new ''L'' (2, 2) 100" True]
    by (simp add: f adjust_examples)
qed

section \<open>The default brightness\<close>

text \<open>
  Claim C8 says that the default brightness is the neutral 128, so that the default
  call leaves the luma alone.  The default of the signature is 127: the curve is
  applied, and it moves the luma 128 to 127.
\<close>

theorem default_brightness_not_neutral:
  "brightness_default = 127 \<and> brightness_default \<noteq> 128
   \<and> adjust brightness_default 128 = 127
   \<and> to_grayscale example_library (Image_new ''L'' (2, 2) 128)
        brightness_default alpha_as_white_default
       = Image_new ''L'' (2, 2) 127"
proof -
  have f: "flatten_to_L example_library (Image_new ''L'' (2, 2) 128) True
      = Image_new ''L'' (2, 2) 128"
    by (simp add: flatten_to_L_def convert_RGBA_def alpha_composite_def convert_L_def
        Image_new_def example_library_colours)
  have g: "to_grayscale example_library (Image_new ''L'' (2, 2) 128) 127 True
      = point (adjust 127) (Image_new ''L'' (2, 2) 128)"
    by (simp add: to_grayscale_def f)
  have u: "uint (128 :: byte) = 128" by simp
  have p: "point (adjust 127) (Image_new ''L'' (2, 2) 128) = Image_new ''L'' (2, 2) 127"
    by (simp add: point_def Image_new_def u adjust_examples clip8_def)
  show ?thesis
    by (simp add: brightness_default_def alpha_as_white_default_def g p adjust_examples)
qed

section \<open>The selector and the halftone path\<close>

lemma process_image_not_direct:
  "algorithm \<noteq> ''algo-direct'' \<Longrightarrow>
   process_image P url algorithm reqs = steinberg_pipeline P url reqs"
  by (simp add: process_image_def steinberg_pipeline_def Let_def
      split: prod.splits sum.splits)

lemma example_server_run:
  "steinberg_pipeline example_server ''http://a/b.png'' []
     = (Inr (pack_to_pbm example_server
          (dither_floyd_steinberg example_server
             (to_grayscale example_server
                \<lparr>mode = ''L'', imsize = (384, 384),
                 pixels = replicate 384 (replicate 384 0)\<rparr>
                brightness_default alpha_as_white_default))),
        [(''http://a/b.png'', 10)])"
proof -
  have a: "has_adapter ''http://a/b.png''"
    by (simp add: has_adapter_def lower_eval)
  have d: "download_image example_server ''http://a/b.png'' timeout_default []
      = (Inr (Image_new ''L'' (2, 2) 128), [(''http://a/b.png'', 10)])"
    by (simp add: download_image_def requests_get_def a read_response_def example_server_def
        example_library_def timeout_default_def size_limit_def)
  have rs: "resample example_server img (384, 384) = Inr (replicate 384 (replicate 384 0))"
    for img
    by (simp add: example_server_def example_library_def)
  have r: "resize_image example_server (Image_new ''L'' (2, 2) 128) target_width_default
      = Inr \<lparr>mode = ''L'', imsize = (384, 384), pixels = replicate 384 (replicate 384 0)\<rparr>"
    by (simp add: resize_image_def Image_resize_def Image_new_def target_width_default_def
        target_height_values c_int_def rs)
  show ?thesis by (simp add: steinberg_pipeline_def d r)
qed

text \<open>
  Claim C5 asks, when the ordered (halftone) algorithm is selected, for a threshold
  of each pixel \<open>(x, y)\<close> against entry \<open>(x mod 4, y mod 4)\<close> of a fixed 4 by 4 matrix,
  with no state carried between pixels.  The code of \<open>dither_halftone\<close> is the
  error-diffusion conversion, the same call as \<open>dither_floyd_steinberg\<close>, whatever
  the image, and \<open>process_image\<close> with the selector \<^verbatim>\<open>'algo-halftone'\<close> is the pipeline
  with error diffusion.
\<close>

theorem dither_halftone_is_error_diffusion:
  "dither_halftone P img = dither_floyd_steinberg P img
   \<and> dither_halftone P img = convert_1 P FLOYDSTEINBERG img
   \<and> process_image P url ''algo-halftone'' reqs = steinberg_pipeline P url reqs"
  by (simp add: dither_halftone_def dither_floyd_steinberg_def process_image_not_direct)

text \<open>
  Claim C10.  For every selector string other than \<^verbatim>\<open>'algo-direct'\<close>, among them
  \<^verbatim>\<open>'algo-halftone'\<close> and every string the module does not know, \<open>process_image\<close> is
  the pipeline with Floyd-Steinberg error diffusion; the selector never makes the
  pipeline fail.
\<close>

theorem process_image_selector:
  assumes "algorithm \<noteq> ''algo-direct''"
  shows "process_image P url algorithm reqs = steinberg_pipeline P url reqs"
  using assms by (rule process_image_not_direct)

text \<open>With the example server the pipeline runs to the end for \<^verbatim>\<open>'algo-halftone'\<close> and
  for a selector nobody knows.\<close>

theorem process_image_selector_witness:
  "process_image example_server ''http://a/b.png'' ''algo-halftone'' []
     = steinberg_pipeline example_server ''http://a/b.png'' []
   \<and> process_image example_server ''http://a/b.png'' ''no such algorithm'' []
     = steinberg_pipeline example_server ''http://a/b.png'' []
   \<and> \<not> isl (fst (process_image example_server ''http://a/b.png'' ''no such algorithm'' []))"
proof -
  have a: "''algo-halftone'' \<noteq> ''algo-direct''" and b: "''no such algorithm'' \<noteq> ''algo-direct''"
    by simp_all
  show ?thesis
    using process_image_selector [OF a, of example_server "''http://a/b.png''" "[]"]
      process_image_selector [OF b, of example_server "''http://a/b.png''" "[]"]
    by (simp add: example_server_run)
qed

end
